theory Spec2Isabelle
  imports Main "HOL-Library.AList" "HOL-Library.Multiset"
begin

section \<open>Errors\<close>

text \<open>
  Go errors are values. The package builds them with \<^verbatim>\<open>fmt.Errorf\<close> around exactly one
  \<^verbatim>\<open>%w\<close> verb and with \<^verbatim>\<open>errors.Join\<close>, and inspects them with \<^verbatim>\<open>errors.Is\<close>. A
  message is kept as the pieces of its format string: literal text and \<^verbatim>\<open>%q\<close> arguments.
\<close>

datatype part = Lit string | Q string

datatype err =
    ErrKeyNotFound
  | ErrNewClient
  | Other string
  | Errorf "part list" err "part list"
  | Join err err

text \<open>\<^verbatim>\<open>errors.Is\<close>: the error itself, or anything reachable by unwrapping.\<close>

fun errors_Is :: "err \<Rightarrow> err \<Rightarrow> bool" where
  "errors_Is (Errorf pre e post) t = (Errorf pre e post = t \<or> errors_Is e t)"
| "errors_Is (Join a b) t = (Join a b = t \<or> errors_Is a t \<or> errors_Is b t)"
| "errors_Is e t = (e = t)"

text \<open>The \<^verbatim>\<open>%q\<close> arguments an error message carries, outermost first.\<close>

fun quoted :: "part list \<Rightarrow> string list" where
  "quoted [] = []"
| "quoted (Q s # ps) = s # quoted ps"
| "quoted (Lit s # ps) = quoted ps"

fun carries :: "err \<Rightarrow> string \<Rightarrow> bool" where
  "carries (Errorf pre e post) s = (s \<in> set (quoted pre) \<or> s \<in> set (quoted post))"
| "carries e s = False"

section \<open>Data model\<close>

text \<open>
  Modelled from the spec: a JWK is opaque key material with a key ID (the type is declared
  outside \<^verbatim>\<open>http.go\<close>).
\<close>

datatype JWK = JWK (KID: string) (material: string)

text \<open>
  \<^verbatim>\<open>context.Context\<close>: the caller's context, or one derived with
  \<^verbatim>\<open>context.WithTimeout\<close>. \<^verbatim>\<open>time.Duration\<close> counts nanoseconds.
\<close>

datatype Context = Background | Caller nat | WithTimeout Context int

definition Minute :: int where
  "Minute = 60 * 1000000000"

definition Hour :: int where
  "Hour = 60 * Minute"

text \<open>\<^verbatim>\<open>rate.NewLimiter(rate.Every(d), b)\<close>, kept as its two arguments.\<close>

datatype Limiter = NewLimiter (every: int) (burst: int)

text \<open>
  A refresh error handler is a function value. The only one \<^verbatim>\<open>http.go\<close> builds is
  the closure that logs to \<^verbatim>\<open>slog.Default()\<close> with the URL it captured; any other is a
  caller's.
\<close>

datatype handler = SlogDefault string | UserHandler nat

text \<open>The fields of \<^verbatim>\<open>HTTPClientStorageOptions\<close> that \<^verbatim>\<open>http.go\<close> names.\<close>

record HTTPClientStorageOptions =
  Ctx :: "Context option"
  NoErrorReturnFirstHTTPReq :: bool
  RefreshErrorHandler :: "handler option"
  RefreshInterval :: int

definition zeroStorageOptions :: HTTPClientStorageOptions where
  "zeroStorageOptions =
     \<lparr>Ctx = None, NoErrorReturnFirstHTTPReq = False,
      RefreshErrorHandler = None, RefreshInterval = 0\<rparr>"

text \<open>
  \<^verbatim>\<open>HTTPStorage\<close> is a struct of which \<^verbatim>\<open>http.go\<close> reads the field \<^verbatim>\<open>options\<close>;
  the rest of its state is the type parameter.
\<close>

record 'z HTTPStorage =
  options :: HTTPClientStorageOptions
  hidden :: 'z

text \<open>A parsed URL, represented by the string its \<^verbatim>\<open>String()\<close> method returns.\<close>

datatype URL = URL (String: string)

text \<open>
  \<^verbatim>\<open>HTTPClientOptions\<close>. \<^verbatim>\<open>Given\<close> is an interface value and may be nil; the values
  of \<^verbatim>\<open>HTTPURLs\<close> are pointers and may be nil. A Go map is an association list with
  distinct keys; the order of the list carries no meaning.
\<close>

record ('s, 'z) HTTPClientOptions =
  Given :: "'s option"
  HTTPURLs :: "(string \<times> 'z HTTPStorage option) list"
  PrioritizeHTTP :: bool
  RateLimitWaitMax :: int
  RefreshUnknownKID :: "Limiter option"
  storageOptions :: "(HTTPClientStorageOptions \<Rightarrow> HTTPClientStorageOptions) list"

text \<open>
  \<^verbatim>\<open>HTTPClient\<close>. Its fields are unexported and \<^verbatim>\<open>NewHTTPClient\<close> is the only place
  that builds one, after it has replaced every nil store: the stores of a client are not nil.
\<close>

record ('s, 'z) HTTPClient =
  given :: 's
  httpURLs :: "(string \<times> 'z HTTPStorage) list"
  prioritizeHTTP :: bool
  rateLimitWaitMax :: int
  refreshUnknownKID :: "Limiter option"

section \<open>Ranging over a Go map\<close>

text \<open>
  The order in which \<^verbatim>\<open>range\<close> visits the keys of a map is chosen by the Go runtime and
  may differ from one loop to the next. Every loop over a map therefore takes the order of
  its visit as an argument: a list of the keys of the map, each once.
\<close>

definition go_map :: "('k \<times> 'v) list \<Rightarrow> bool" where
  "go_map m = distinct (map fst m)"

definition range_order :: "('k \<times> 'v) list \<Rightarrow> 'k list \<Rightarrow> bool" where
  "range_order m ord = (distinct ord \<and> set ord = fst ` set m)"

definition go_range :: "('k \<times> 'v) list \<Rightarrow> 'k list \<Rightarrow> ('k \<times> 'v) list" where
  "go_range m ord = List.map_filter (\<lambda>u. map_option (Pair u) (map_of m u)) ord"

section \<open>Construction\<close>

text \<open>
  \<^verbatim>\<open>url.ParseRequestURI\<close> belongs to the standard library and \<^verbatim>\<open>NewStorageFromHTTP\<close>
  and \<^verbatim>\<open>NewMemoryStorage\<close> to files other than \<^verbatim>\<open>http.go\<close>; they are parameters.
\<close>

type_synonym parser = "string \<Rightarrow> err + URL"
type_synonym 'z storage_maker = "URL option \<Rightarrow> HTTPClientStorageOptions \<Rightarrow> err + 'z HTTPStorage"

definition parse_failed :: "string \<Rightarrow> err \<Rightarrow> err" where
  "parse_failed u e =
     Errorf [Lit ''failed to parse given URL '', Q u, Lit '': ''] (Join e ErrNewClient) []"

definition create_failed :: "string \<Rightarrow> err \<Rightarrow> err" where
  "create_failed u e =
     Errorf [Lit ''failed to create HTTP client storage for '', Q u, Lit '': '']
       (Join e ErrNewClient) []"

text \<open>The loop of \<^verbatim>\<open>NewHTTPClient\<close> over the entries it visits; it assigns into the map.\<close>

fun fill_stores ::
  "parser \<Rightarrow> 'z storage_maker \<Rightarrow> (string \<times> 'z HTTPStorage option) list \<Rightarrow>
   (string \<times> 'z HTTPStorage option) list \<Rightarrow> err + (string \<times> 'z HTTPStorage option) list" where
  "fill_stores parse new [] m = Inr m"
| "fill_stores parse new ((u, store) # rest) m =
     (case store of
        Some s \<Rightarrow> fill_stores parse new rest m
      | None \<Rightarrow>
          (case parse u of
             Inl e \<Rightarrow> Inl (parse_failed u e)
           | Inr parsed \<Rightarrow>
               (case new None zeroStorageOptions of
                  Inl e \<Rightarrow> Inl (create_failed (String parsed) e)
                | Inr s \<Rightarrow> fill_stores parse new rest (AList.update u (Some s) m))))"

text \<open>The stores of a map none of whose values is nil.\<close>

definition stores :: "(string \<times> 'z HTTPStorage option) list \<Rightarrow> (string \<times> 'z HTTPStorage) list" where
  "stores m = List.map_filter (\<lambda>(u, s). map_option (Pair u) s) m"

definition NewHTTPClient ::
  "parser \<Rightarrow> 'z storage_maker \<Rightarrow> 's \<Rightarrow> string list \<Rightarrow> ('s, 'z) HTTPClientOptions \<Rightarrow>
   err + ('s, 'z) HTTPClient" where
  "NewHTTPClient parse new NewMemoryStorage ord opts =
     (if Given opts = None \<and> length (HTTPURLs opts) = 0
      then Inl (Errorf [] ErrNewClient [Lit '': no given keys or HTTP URLs''])
      else
        (case fill_stores parse new (go_range (HTTPURLs opts) ord) (HTTPURLs opts) of
           Inl e \<Rightarrow> Inl e
         | Inr m \<Rightarrow>
             Inr \<lparr>given = (case Given opts of None \<Rightarrow> NewMemoryStorage | Some g \<Rightarrow> g),
                  httpURLs = stores m,
                  prioritizeHTTP = PrioritizeHTTP opts,
                  rateLimitWaitMax = RateLimitWaitMax opts,
                  refreshUnknownKID = RefreshUnknownKID opts\<rparr>))"

text \<open>
  \<^verbatim>\<open>NewDefaultHTTPClientCtx\<close>: the loop over the slice of URLs (a slice is visited in
  order), then the function. An option is a function that updates the options it is given.
\<close>

fun default_stores ::
  "parser \<Rightarrow> 'z storage_maker \<Rightarrow> Context \<Rightarrow> string list \<Rightarrow> ('s, 'z) HTTPClientOptions \<Rightarrow>
   err + ('s, 'z) HTTPClientOptions" where
  "default_stores parse new ctx [] clientOptions = Inr clientOptions"
| "default_stores parse new ctx (u # urls) clientOptions =
     (case parse u of
        Inl e \<Rightarrow> Inl (parse_failed u e)
      | Inr parsed \<Rightarrow>
          (let u' = String parsed;
               opts = fold (\<lambda>opt x. opt x) (storageOptions clientOptions)
                        \<lparr>Ctx = Some ctx, NoErrorReturnFirstHTTPReq = True,
                         RefreshErrorHandler = Some (SlogDefault u'), RefreshInterval = Hour\<rparr>
           in case new (Some parsed) opts of
                Inl e \<Rightarrow> Inl (create_failed u' e)
              | Inr c \<Rightarrow>
                  default_stores parse new ctx urls
                    (clientOptions\<lparr>HTTPURLs := AList.update u' (Some c) (HTTPURLs clientOptions)\<rparr>)))"

definition defaultClientOptions :: "('s, 'z) HTTPClientOptions" where
  "defaultClientOptions =
     \<lparr>Given = None, HTTPURLs = [], PrioritizeHTTP = False, RateLimitWaitMax = Minute,
      RefreshUnknownKID = Some (NewLimiter (5 * Minute) 1), storageOptions = []\<rparr>"

definition NewDefaultHTTPClientCtx ::
  "parser \<Rightarrow> 'z storage_maker \<Rightarrow> 's \<Rightarrow> string list \<Rightarrow> Context \<Rightarrow> string list \<Rightarrow>
   (('s, 'z) HTTPClientOptions \<Rightarrow> ('s, 'z) HTTPClientOptions) list \<Rightarrow> err + ('s, 'z) HTTPClient" where
  "NewDefaultHTTPClientCtx parse new NewMemoryStorage ord ctx urls opts =
     (case default_stores parse new ctx urls (fold (\<lambda>opt x. opt x) opts defaultClientOptions) of
        Inl e \<Rightarrow> Inl e
      | Inr clientOptions \<Rightarrow> NewHTTPClient parse new NewMemoryStorage ord clientOptions)"

definition NewDefaultHTTPClient ::
  "parser \<Rightarrow> 'z storage_maker \<Rightarrow> 's \<Rightarrow> string list \<Rightarrow> string list \<Rightarrow>
   (('s, 'z) HTTPClientOptions \<Rightarrow> ('s, 'z) HTTPClientOptions) list \<Rightarrow> err + ('s, 'z) HTTPClient" where
  "NewDefaultHTTPClient parse new NewMemoryStorage ord urls opts =
     NewDefaultHTTPClientCtx parse new NewMemoryStorage ord Background urls opts"

section \<open>The stores behind the client\<close>

text \<open>
  The \<^verbatim>\<open>Storage\<close> interface and the methods of \<^verbatim>\<open>HTTPStorage\<close> are declared and
  implemented outside \<^verbatim>\<open>http.go\<close>: each is a record of functions over the state of the
  store, and every operation of the client takes them as parameters. A method that changes
  its store returns the new state; reading returns a result only. \<^verbatim>\<open>KeyDelete\<close> returns
  both a flag and an error, and the client looks at both.
\<close>

typedecl JWKMarshalOptions
typedecl JWKValidateOptions
typedecl JWKSMarshal

record 's Storage =
  sKeyDelete :: "'s \<Rightarrow> Context \<Rightarrow> string \<Rightarrow> (bool \<times> err option) \<times> 's"
  sKeyRead :: "'s \<Rightarrow> Context \<Rightarrow> string \<Rightarrow> err + JWK"
  sKeyReadAll :: "'s \<Rightarrow> Context \<Rightarrow> err + JWK list"
  sKeyWrite :: "'s \<Rightarrow> Context \<Rightarrow> JWK \<Rightarrow> err option \<times> 's"
  sJSON :: "'s \<Rightarrow> Context \<Rightarrow> err + string"
  sJSONPublic :: "'s \<Rightarrow> Context \<Rightarrow> err + string"
  sJSONPrivate :: "'s \<Rightarrow> Context \<Rightarrow> err + string"
  sJSONWithOptions :: "'s \<Rightarrow> Context \<Rightarrow> JWKMarshalOptions \<Rightarrow> JWKValidateOptions \<Rightarrow> err + string"
  sMarshal :: "'s \<Rightarrow> Context \<Rightarrow> err + JWKSMarshal"
  sMarshalWithOptions ::
    "'s \<Rightarrow> Context \<Rightarrow> JWKMarshalOptions \<Rightarrow> JWKValidateOptions \<Rightarrow> err + JWKSMarshal"

record 'z HTTPStorageMethods =
  hKeyDelete :: "'z HTTPStorage \<Rightarrow> Context \<Rightarrow> string \<Rightarrow> (bool \<times> err option) \<times> 'z HTTPStorage"
  hKeyRead :: "'z HTTPStorage \<Rightarrow> Context \<Rightarrow> string \<Rightarrow> err + JWK"
  hKeyReadAll :: "'z HTTPStorage \<Rightarrow> Context \<Rightarrow> err + JWK list"
  hrefresh :: "'z HTTPStorage \<Rightarrow> Context \<Rightarrow> err option \<times> 'z HTTPStorage"

text \<open>
  What an operation of the client asks of its collaborators, in the order it asks: the
  calls on the stores, on the rate limiter and on a refresh error handler.
\<close>

datatype call =
    GivenKeyDelete
  | HTTPKeyDelete string
  | GivenKeyRead
  | HTTPKeyRead string
  | LimiterWait Context
  | HTTPRefresh string Context
  | Handle handler Context err

section \<open>KeyDelete\<close>

text \<open>\<^verbatim>\<open>err != nil && !errors.Is(err, ErrKeyNotFound)\<close>: the error that aborts, if any.\<close>

definition fatal :: "err option \<Rightarrow> err option" where
  "fatal err = (case err of
                  None \<Rightarrow> None
                | Some e \<Rightarrow> if errors_Is e ErrKeyNotFound then None else Some e)"





text \<open>
  What a store answers to \<^verbatim>\<open>KeyDelete\<close>, as the client reads it: nothing deleted and no
  error but not found; or a key deleted.
\<close>

definition absent_reply :: "bool \<times> err option \<Rightarrow> bool" where
  "absent_reply r = (fatal (snd r) = None \<and> \<not> fst r)"


text \<open>
  What the client expects of a store that deletes: once \<^verbatim>\<open>KeyDelete\<close> has returned
  without an error other than not found, the store answers that the key is absent.
\<close>

definition local_delete_effective :: "'s Storage \<Rightarrow> Context \<Rightarrow> string \<Rightarrow> 's \<Rightarrow> bool" where
  "local_delete_effective S ctx keyID g =
     (fatal (snd (fst (sKeyDelete S g ctx keyID))) = None \<longrightarrow>
      absent_reply (fst (sKeyDelete S (snd (sKeyDelete S g ctx keyID)) ctx keyID)))"

definition remote_delete_effective ::
  "'z HTTPStorageMethods \<Rightarrow> Context \<Rightarrow> string \<Rightarrow> 'z HTTPStorage \<Rightarrow> bool" where
  "remote_delete_effective H ctx keyID store =
     (fatal (snd (fst (hKeyDelete H store ctx keyID))) = None \<longrightarrow>
      absent_reply (fst (hKeyDelete H (snd (hKeyDelete H store ctx keyID)) ctx keyID)))"

section \<open>KeyRead\<close>

definition given_read_failed :: "string \<Rightarrow> err \<Rightarrow> err" where
  "given_read_failed keyID e =
     Errorf [Lit ''failed to find JWT key with ID '', Q keyID,
             Lit '' in given storage due to error: ''] e []"

definition http_read_failed :: "string \<Rightarrow> err \<Rightarrow> err" where
  "http_read_failed keyID e =
     Errorf [Lit ''failed to find JWT key with ID '', Q keyID,
             Lit '' in HTTP storage due to error: ''] e []"

definition wait_failed :: "err \<Rightarrow> err" where
  "wait_failed e =
     Errorf [Lit ''failed to wait for JWK Set refresh rate limiter due to error: ''] e []"

definition not_found :: "string \<Rightarrow> err" where
  "not_found keyID = Errorf [] ErrKeyNotFound [Lit '' '', Q keyID]"

text \<open>
  The three-way \<^verbatim>\<open>switch\<close> that follows every read of a store: not found falls through
  (\<open>None\<close>), any other error returns wrapped, a key returns.
\<close>

definition read_switch :: "(err \<Rightarrow> err) \<Rightarrow> err + JWK \<Rightarrow> (err + JWK) option" where
  "read_switch wrap r =
     (case r of
        Inl e \<Rightarrow> if errors_Is e ErrKeyNotFound then None else Some (Inl (wrap e))
      | Inr jwk \<Rightarrow> Some (Inr jwk))"

text \<open>The first loop over the remote stores (lines 162 to 172).\<close>

fun read_loop ::
  "'z HTTPStorageMethods \<Rightarrow> Context \<Rightarrow> string \<Rightarrow> (string \<times> 'z HTTPStorage) list \<Rightarrow>
   (err + JWK) option \<times> call list" where
  "read_loop H ctx keyID [] = (None, [])"
| "read_loop H ctx keyID ((u, store) # rest) =
     (case read_switch (http_read_failed keyID) (hKeyRead H store ctx keyID) of
        Some r \<Rightarrow> (Some r, [HTTPKeyRead u])
      | None \<Rightarrow> (case read_loop H ctx keyID rest of (r, t) \<Rightarrow> (r, HTTPKeyRead u # t)))"

text \<open>
  The loop that refreshes (lines 194 to 211). The handler read is that of the store after
  the refresh, the store the pointer then leads to.
\<close>

fun refresh_loop ::
  "'z HTTPStorageMethods \<Rightarrow> Context \<Rightarrow> string \<Rightarrow> (string \<times> 'z HTTPStorage) list \<Rightarrow>
   (string \<times> 'z HTTPStorage) list \<Rightarrow>
   (err + JWK) option \<times> (string \<times> 'z HTTPStorage) list \<times> call list" where
  "refresh_loop H ctx keyID [] m = (None, m, [])"
| "refresh_loop H ctx keyID ((u, store) # rest) m =
     (case hrefresh H store ctx of
        (Some e, store') \<Rightarrow>
          (case refresh_loop H ctx keyID rest (AList.update u store' m) of
             (r, m', t) \<Rightarrow>
               (r, m',
                HTTPRefresh u ctx #
                (case RefreshErrorHandler (options store') of
                   None \<Rightarrow> []
                 | Some h \<Rightarrow> [Handle h ctx e]) @ t))
      | (None, store') \<Rightarrow>
          (case read_switch (http_read_failed keyID) (hKeyRead H store' ctx keyID) of
             Some r \<Rightarrow> (Some r, AList.update u store' m, [HTTPRefresh u ctx, HTTPKeyRead u])
           | None \<Rightarrow>
               (case refresh_loop H ctx keyID rest (AList.update u store' m) of
                  (r, m', t) \<Rightarrow> (r, m', HTTPRefresh u ctx # HTTPKeyRead u # t))))"

text \<open>
  \<^verbatim>\<open>Limiter.Wait\<close> belongs to the rate library and depends on the clock: what it
  returns in a call is the parameter \<open>wait\<close>. The errors it can return are those of the
  library: the error of the context, or one of the two the library formats.
\<close>

datatype wait_error =
    ContextCanceled | ContextDeadlineExceeded | ExceedsBurst | WouldExceedDeadline

fun wait_err :: "wait_error \<Rightarrow> err" where
  "wait_err ContextCanceled = Other ''context canceled''"
| "wait_err ContextDeadlineExceeded = Other ''context deadline exceeded''"
| "wait_err ExceedsBurst = Other ''rate: Wait(n=1) exceeds limiter's burst''"
| "wait_err WouldExceedDeadline = Other ''rate: Wait(n=1) would exceed context deadline''"

type_synonym waiter = "Limiter \<Rightarrow> Context \<Rightarrow> wait_error option"

text \<open>Lines 185 to 188: the context the wait and all that follows it run under.\<close>

definition wait_context :: "('s, 'z) HTTPClient \<Rightarrow> Context \<Rightarrow> Context" where
  "wait_context c ctx =
     (if rateLimitWaitMax c > 0 then WithTimeout ctx (rateLimitWaitMax c) else ctx)"

text \<open>
  Lines 184 to 213 of \<^verbatim>\<open>KeyRead\<close>, reached when every store has reported the key as
  not found.
\<close>

definition KeyRead_refresh ::
  "'z HTTPStorageMethods \<Rightarrow> waiter \<Rightarrow> ('s, 'z) HTTPClient \<Rightarrow> string list \<Rightarrow> Context \<Rightarrow> string \<Rightarrow>
   (err + JWK) \<times> ('s, 'z) HTTPClient \<times> call list" where
  "KeyRead_refresh H wait c ord ctx keyID =
     (case refreshUnknownKID c of
        None \<Rightarrow> (Inl (not_found keyID), c, [])
      | Some limiter \<Rightarrow>
          (let ctx' = wait_context c ctx
           in case wait limiter ctx' of
                Some e \<Rightarrow> (Inl (wait_failed (wait_err e)), c, [LimiterWait ctx'])
              | None \<Rightarrow>
                  (case refresh_loop H ctx' keyID (go_range (httpURLs c) ord) (httpURLs c) of
                     (r, m', t) \<Rightarrow>
                       ((case r of Some res \<Rightarrow> res | None \<Rightarrow> Inl (not_found keyID)),
                        c\<lparr>httpURLs := m'\<rparr>, LimiterWait ctx' # t))))"

text \<open>
  \<^verbatim>\<open>KeyRead\<close>. It ranges over the map twice: \<open>ord1\<close> is the order of the first visit,
  \<open>ord2\<close> that of the visit that refreshes.
\<close>

definition KeyRead ::
  "'s Storage \<Rightarrow> 'z HTTPStorageMethods \<Rightarrow> waiter \<Rightarrow> ('s, 'z) HTTPClient \<Rightarrow>
   string list \<Rightarrow> string list \<Rightarrow> Context \<Rightarrow> string \<Rightarrow>
   (err + JWK) \<times> ('s, 'z) HTTPClient \<times> call list" where
  "KeyRead S H wait c ord1 ord2 ctx keyID =
     (case (if \<not> prioritizeHTTP c
            then read_switch (given_read_failed keyID) (sKeyRead S (given c) ctx keyID)
            else None) of
        Some r \<Rightarrow> (r, c, [GivenKeyRead])
      | None \<Rightarrow>
          (let t1 = (if \<not> prioritizeHTTP c then [GivenKeyRead] else [])
           in case read_loop H ctx keyID (go_range (httpURLs c) ord1) of
                (Some r, t2) \<Rightarrow> (r, c, t1 @ t2)
              | (None, t2) \<Rightarrow>
                  (case (if prioritizeHTTP c
                         then read_switch (given_read_failed keyID) (sKeyRead S (given c) ctx keyID)
                         else None) of
                     Some r \<Rightarrow> (r, c, t1 @ t2 @ [GivenKeyRead])
                   | None \<Rightarrow>
                       (let t3 = (if prioritizeHTTP c then [GivenKeyRead] else [])
                        in case KeyRead_refresh H wait c ord2 ctx keyID of
                             (r, c', t4) \<Rightarrow> (r, c', t1 @ t2 @ t3 @ t4)))))"

text \<open>
  What a store answers to \<^verbatim>\<open>KeyRead\<close>, as the \<^verbatim>\<open>switch\<close> reads it: a not-found
  failure, or else what the \<^verbatim>\<open>switch\<close> then returns.
\<close>

definition missing_reply :: "err + JWK \<Rightarrow> bool" where
  "missing_reply r = (case r of Inl e \<Rightarrow> errors_Is e ErrKeyNotFound | Inr jwk \<Rightarrow> False)"

definition settled :: "(err \<Rightarrow> err) \<Rightarrow> err + JWK \<Rightarrow> err + JWK" where
  "settled wrap r = (case r of Inl e \<Rightarrow> Inl (wrap e) | Inr jwk \<Rightarrow> Inr jwk)"

text \<open>
  A remote store that the refreshing loop passes: its refresh fails, or it succeeds and the
  refreshed store reports the key as not found. The calls the loop makes on such a store.
\<close>

definition passes :: "'z HTTPStorageMethods \<Rightarrow> Context \<Rightarrow> string \<Rightarrow> 'z HTTPStorage \<Rightarrow> bool" where
  "passes H ctx keyID store =
     (case hrefresh H store ctx of
        (Some e, store') \<Rightarrow> True
      | (None, store') \<Rightarrow> missing_reply (hKeyRead H store' ctx keyID))"

definition visit ::
  "'z HTTPStorageMethods \<Rightarrow> Context \<Rightarrow> string \<times> 'z HTTPStorage \<Rightarrow> call list" where
  "visit H ctx = (\<lambda>(u, store).
     HTTPRefresh u ctx #
     (case hrefresh H store ctx of
        (Some e, store') \<Rightarrow>
          (case RefreshErrorHandler (options store') of None \<Rightarrow> [] | Some h \<Rightarrow> [Handle h ctx e])
      | (None, store') \<Rightarrow> [HTTPKeyRead u]))"

text \<open>The remote stores refreshed in a sequence of calls.\<close>

fun refreshes :: "call list \<Rightarrow> string list" where
  "refreshes [] = []"
| "refreshes (HTTPRefresh u ctx # t) = u # refreshes t"
| "refreshes (x # t) = refreshes t"

text \<open>The calls of \<^verbatim>\<open>KeyRead\<close> before line 184 when every store reports not found.\<close>

definition early_calls :: "('s, 'z) HTTPClient \<Rightarrow> string list \<Rightarrow> call list" where
  "early_calls c ord =
     (if \<not> prioritizeHTTP c then [GivenKeyRead] else []) @ map HTTPKeyRead ord @
     (if prioritizeHTTP c then [GivenKeyRead] else [])"

section \<open>KeyReadAll, KeyWrite and the exports\<close>

definition given_snapshot_failed :: "err \<Rightarrow> err" where
  "given_snapshot_failed e = Errorf [Lit ''failed to snapshot given keys due to error: ''] e []"

definition http_snapshot_failed :: "string \<Rightarrow> err \<Rightarrow> err" where
  "http_snapshot_failed u e =
     Errorf [Lit ''failed to snapshot HTTP keys from '', Q u, Lit '' due to error: ''] e []"

fun readall_loop ::
  "'z HTTPStorageMethods \<Rightarrow> Context \<Rightarrow> (string \<times> 'z HTTPStorage) list \<Rightarrow> JWK list \<Rightarrow>
   err + JWK list" where
  "readall_loop H ctx [] jwks = Inr jwks"
| "readall_loop H ctx ((u, store) # rest) jwks =
     (case hKeyReadAll H store ctx of
        Inl e \<Rightarrow> Inl (http_snapshot_failed u e)
      | Inr j \<Rightarrow> readall_loop H ctx rest (jwks @ j))"

definition KeyReadAll ::
  "'s Storage \<Rightarrow> 'z HTTPStorageMethods \<Rightarrow> ('s, 'z) HTTPClient \<Rightarrow> string list \<Rightarrow> Context \<Rightarrow>
   err + JWK list" where
  "KeyReadAll S H c ord ctx =
     (case sKeyReadAll S (given c) ctx of
        Inl e \<Rightarrow> Inl (given_snapshot_failed e)
      | Inr jwks \<Rightarrow> readall_loop H ctx (go_range (httpURLs c) ord) jwks)"

text \<open>What a remote store contributes to \<^verbatim>\<open>KeyReadAll\<close> when its read succeeds.\<close>

definition remote_keys :: "'z HTTPStorageMethods \<Rightarrow> Context \<Rightarrow> 'z HTTPStorage \<Rightarrow> JWK list" where
  "remote_keys H ctx store = (case hKeyReadAll H store ctx of Inl e \<Rightarrow> [] | Inr j \<Rightarrow> j)"

definition KeyWrite ::
  "'s Storage \<Rightarrow> ('s, 'z) HTTPClient \<Rightarrow> Context \<Rightarrow> JWK \<Rightarrow> err option \<times> ('s, 'z) HTTPClient" where
  "KeyWrite S c ctx jwk =
     (case sKeyWrite S (given c) ctx jwk of (e, g') \<Rightarrow> (e, c\<lparr>given := g'\<rparr>))"

definition snapshot_failed :: "err \<Rightarrow> err" where
  "snapshot_failed e = Errorf [Lit ''failed to snapshot keys due to error: ''] e []"

definition write_failed :: "err \<Rightarrow> err" where
  "write_failed e = Errorf [Lit ''failed to write key to memory storage due to error: ''] e []"

definition combine_failed :: "err \<Rightarrow> err" where
  "combine_failed e = Errorf [Lit ''failed to combine storage due to error: ''] e []"

text \<open>The loop of \<^verbatim>\<open>combineStorage\<close> over the slice of keys.\<close>

fun write_loop :: "'s Storage \<Rightarrow> Context \<Rightarrow> JWK list \<Rightarrow> 's \<Rightarrow> err + 's" where
  "write_loop S ctx [] m = Inr m"
| "write_loop S ctx (jwk # rest) m =
     (case sKeyWrite S m ctx jwk of
        (Some e, m') \<Rightarrow> Inl (write_failed e)
      | (None, m') \<Rightarrow> write_loop S ctx rest m')"

definition combineStorage ::
  "'s Storage \<Rightarrow> 'z HTTPStorageMethods \<Rightarrow> 's \<Rightarrow> ('s, 'z) HTTPClient \<Rightarrow> string list \<Rightarrow> Context \<Rightarrow>
   err + 's" where
  "combineStorage S H NewMemoryStorage c ord ctx =
     (case KeyReadAll S H c ord ctx of
        Inl e \<Rightarrow> Inl (snapshot_failed e)
      | Inr jwks \<Rightarrow> write_loop S ctx jwks NewMemoryStorage)"

definition JSON ::
  "'s Storage \<Rightarrow> 'z HTTPStorageMethods \<Rightarrow> 's \<Rightarrow> ('s, 'z) HTTPClient \<Rightarrow> string list \<Rightarrow> Context \<Rightarrow>
   err + string" where
  "JSON S H NewMemoryStorage c ord ctx =
     (case combineStorage S H NewMemoryStorage c ord ctx of
        Inl e \<Rightarrow> Inl (combine_failed e)
      | Inr m \<Rightarrow> sJSON S m ctx)"

definition JSONPublic ::
  "'s Storage \<Rightarrow> 'z HTTPStorageMethods \<Rightarrow> 's \<Rightarrow> ('s, 'z) HTTPClient \<Rightarrow> string list \<Rightarrow> Context \<Rightarrow>
   err + string" where
  "JSONPublic S H NewMemoryStorage c ord ctx =
     (case combineStorage S H NewMemoryStorage c ord ctx of
        Inl e \<Rightarrow> Inl (combine_failed e)
      | Inr m \<Rightarrow> sJSONPublic S m ctx)"

definition JSONPrivate ::
  "'s Storage \<Rightarrow> 'z HTTPStorageMethods \<Rightarrow> 's \<Rightarrow> ('s, 'z) HTTPClient \<Rightarrow> string list \<Rightarrow> Context \<Rightarrow>
   err + string" where
  "JSONPrivate S H NewMemoryStorage c ord ctx =
     (case combineStorage S H NewMemoryStorage c ord ctx of
        Inl e \<Rightarrow> Inl (combine_failed e)
      | Inr m \<Rightarrow> sJSONPrivate S m ctx)"

definition JSONWithOptions ::
  "'s Storage \<Rightarrow> 'z HTTPStorageMethods \<Rightarrow> 's \<Rightarrow> ('s, 'z) HTTPClient \<Rightarrow> string list \<Rightarrow> Context \<Rightarrow>
   JWKMarshalOptions \<Rightarrow> JWKValidateOptions \<Rightarrow> err + string" where
  "JSONWithOptions S H NewMemoryStorage c ord ctx marshalOptions validationOptions =
     (case combineStorage S H NewMemoryStorage c ord ctx of
        Inl e \<Rightarrow> Inl (combine_failed e)
      | Inr m \<Rightarrow> sJSONWithOptions S m ctx marshalOptions validationOptions)"

definition Marshal ::
  "'s Storage \<Rightarrow> 'z HTTPStorageMethods \<Rightarrow> 's \<Rightarrow> ('s, 'z) HTTPClient \<Rightarrow> string list \<Rightarrow> Context \<Rightarrow>
   err + JWKSMarshal" where
  "Marshal S H NewMemoryStorage c ord ctx =
     (case combineStorage S H NewMemoryStorage c ord ctx of
        Inl e \<Rightarrow> Inl (combine_failed e)
      | Inr m \<Rightarrow> sMarshal S m ctx)"

definition MarshalWithOptions ::
  "'s Storage \<Rightarrow> 'z HTTPStorageMethods \<Rightarrow> 's \<Rightarrow> ('s, 'z) HTTPClient \<Rightarrow> string list \<Rightarrow> Context \<Rightarrow>
   JWKMarshalOptions \<Rightarrow> JWKValidateOptions \<Rightarrow> err + JWKSMarshal" where
  "MarshalWithOptions S H NewMemoryStorage c ord ctx marshalOptions validationOptions =
     (case combineStorage S H NewMemoryStorage c ord ctx of
        Inl e \<Rightarrow> Inl (combine_failed e)
      | Inr m \<Rightarrow> sMarshalWithOptions S m ctx marshalOptions validationOptions)"

section \<open>The specification of the exports\<close>

text \<open>
  The specification's words for \<^verbatim>\<open>combine()\<close>: a fresh empty in-memory store into which
  every key produced by \<^verbatim>\<open>readAll()\<close> is written in sequence, a write failure aborting
  wrapped; and for an export: the corresponding operation of the combined store.
\<close>

definition spec_write :: "'s Storage \<Rightarrow> Context \<Rightarrow> JWK \<Rightarrow> err + 's \<Rightarrow> err + 's" where
  "spec_write S ctx jwk acc =
     (case acc of
        Inl e \<Rightarrow> Inl e
      | Inr m \<Rightarrow> (case fst (sKeyWrite S m ctx jwk) of
                    Some e \<Rightarrow> Inl (write_failed e)
                  | None \<Rightarrow> Inr (snd (sKeyWrite S m ctx jwk))))"

definition spec_combine ::
  "'s Storage \<Rightarrow> 'z HTTPStorageMethods \<Rightarrow> 's \<Rightarrow> ('s, 'z) HTTPClient \<Rightarrow> string list \<Rightarrow> Context \<Rightarrow>
   err + 's" where
  "spec_combine S H fresh c ord ctx =
     (case KeyReadAll S H c ord ctx of
        Inl e \<Rightarrow> Inl (snapshot_failed e)
      | Inr jwks \<Rightarrow> fold (spec_write S ctx) jwks (Inr fresh))"

definition spec_export ::
  "'s Storage \<Rightarrow> 'z HTTPStorageMethods \<Rightarrow> 's \<Rightarrow> ('s, 'z) HTTPClient \<Rightarrow> string list \<Rightarrow> Context \<Rightarrow>
   ('s \<Rightarrow> Context \<Rightarrow> err + 'r) \<Rightarrow> err + 'r" where
  "spec_export S H fresh c ord ctx export =
     (case spec_combine S H fresh c ord ctx of
        Inl e \<Rightarrow> Inl (combine_failed e)
      | Inr m \<Rightarrow> export m ctx)"

section \<open>Stores to run the client on\<close>

text \<open>
  Modelled from the spec: the in-memory single-source store (implemented outside
  \<^verbatim>\<open>http.go\<close>): a list of keys, one per key ID, where writing replaces the key of the same
  ID and reading or deleting an absent ID reports not found. A store can be given a fault,
  the error every one of its operations then fails with. The examples below run the client
  on these stores; the theorems hold for every implementation of the interfaces.
\<close>

fun put_key :: "JWK \<Rightarrow> JWK list \<Rightarrow> JWK list" where
  "put_key jwk [] = [jwk]"
| "put_key jwk (j # js) = (if KID j = KID jwk then jwk # js else j # put_key jwk js)"

definition read_key :: "err option \<Rightarrow> JWK list \<Rightarrow> string \<Rightarrow> err + JWK" where
  "read_key flt ks keyID =
     (case flt of
        Some e \<Rightarrow> Inl e
      | None \<Rightarrow> (case find (\<lambda>j. KID j = keyID) ks of
                    None \<Rightarrow> Inl (Errorf [] ErrKeyNotFound [Lit '': kid '', Q keyID])
                  | Some j \<Rightarrow> Inr j))"

definition delete_key :: "err option \<Rightarrow> JWK list \<Rightarrow> string \<Rightarrow> (bool \<times> err option) \<times> JWK list" where
  "delete_key flt ks keyID =
     (case flt of
        Some e \<Rightarrow> ((False, Some e), ks)
      | None \<Rightarrow> (case find (\<lambda>j. KID j = keyID) ks of
                    None \<Rightarrow> ((False, Some (Errorf [] ErrKeyNotFound [Lit '': kid '', Q keyID])), ks)
                  | Some j \<Rightarrow> ((True, None), filter (\<lambda>j. KID j \<noteq> keyID) ks)))"

datatype memory = Memory (keys: "JWK list") (fault: "err option")

definition memoryStorage :: "memory Storage" where
  "memoryStorage =
     \<lparr>sKeyDelete = (\<lambda>s ctx keyID.
        (fst (delete_key (fault s) (keys s) keyID),
         Memory (snd (delete_key (fault s) (keys s) keyID)) (fault s))),
      sKeyRead = (\<lambda>s ctx keyID. read_key (fault s) (keys s) keyID),
      sKeyReadAll = (\<lambda>s ctx. case fault s of Some e \<Rightarrow> Inl e | None \<Rightarrow> Inr (keys s)),
      sKeyWrite = (\<lambda>s ctx jwk.
        case fault s of Some e \<Rightarrow> (Some e, s) | None \<Rightarrow> (None, Memory (put_key jwk (keys s)) None)),
      sJSON = (\<lambda>s ctx. Inr (concat (map material (keys s)))),
      sJSONPublic = (\<lambda>s ctx. Inr (concat (map KID (keys s)))),
      sJSONPrivate = (\<lambda>s ctx. Inr (concat (map material (keys s)))),
      sJSONWithOptions = (\<lambda>s ctx mo vo. Inr (concat (map material (keys s)))),
      sMarshal = (\<lambda>s ctx. Inl (Other ''marshal'')),
      sMarshalWithOptions = (\<lambda>s ctx mo vo. Inl (Other ''marshal''))\<rparr>"

text \<open>
  Modelled from the spec: a remote key store holds a cache of keys, and \<^verbatim>\<open>refresh\<close>
  re-fetches and replaces it; \<open>upstream\<close> is what the endpoint answers, a failure or its keys.
\<close>

datatype remote = Remote (cache: "JWK list") (rfault: "err option") (upstream: "err + JWK list")

definition remoteMethods :: "remote HTTPStorageMethods" where
  "remoteMethods =
     \<lparr>hKeyDelete = (\<lambda>s ctx keyID.
        (fst (delete_key (rfault (hidden s)) (cache (hidden s)) keyID),
         s\<lparr>hidden := Remote (snd (delete_key (rfault (hidden s)) (cache (hidden s)) keyID))
                       (rfault (hidden s)) (upstream (hidden s))\<rparr>)),
      hKeyRead = (\<lambda>s ctx keyID. read_key (rfault (hidden s)) (cache (hidden s)) keyID),
      hKeyReadAll = (\<lambda>s ctx.
        case rfault (hidden s) of Some e \<Rightarrow> Inl e | None \<Rightarrow> Inr (cache (hidden s))),
      hrefresh = (\<lambda>s ctx.
        case upstream (hidden s) of
          Inl e \<Rightarrow> (Some e, s)
        | Inr ks \<Rightarrow> (None, s\<lparr>hidden := Remote ks (rfault (hidden s)) (upstream (hidden s))\<rparr>))\<rparr>"

definition remoteStore :: "handler option \<Rightarrow> JWK list \<Rightarrow> err option \<Rightarrow> err + JWK list \<Rightarrow> remote HTTPStorage" where
  "remoteStore h ks flt up =
     \<lparr>options = \<lparr>Ctx = None, NoErrorReturnFirstHTTPReq = False,
                 RefreshErrorHandler = h, RefreshInterval = 0\<rparr>,
      hidden = Remote ks flt up\<rparr>"

text \<open>
  A stand-in for \<^verbatim>\<open>url.ParseRequestURI\<close> (an absolute URL begins with a scheme or a
  slash; here: with \<^verbatim>\<open>https://\<close>) and two for \<^verbatim>\<open>NewStorageFromHTTP\<close>: one that
  builds a store with an empty cache, one whose first request fails.
\<close>

definition parseHTTPS :: parser where
  "parseHTTPS u =
     (if take 8 u = ''https://'' then Inr (URL u) else Inl (Other ''invalid URI for request''))"

definition newEmptyStore :: "remote storage_maker" where
  "newEmptyStore url opts = Inr \<lparr>options = opts, hidden = Remote [] None (Inr [])\<rparr>"

definition newFailing :: "remote storage_maker" where
  "newFailing url opts = Inl (Other ''failed to perform first HTTP request for JWK Set'')"

definition never_admitted :: waiter where
  "never_admitted limiter ctx = Some ContextDeadlineExceeded"

definition admitted :: waiter where
  "admitted limiter ctx = None"

text \<open>Options and clients over these stores, for the examples.\<close>

definition opts_of ::
  "memory option \<Rightarrow> (string \<times> remote HTTPStorage option) list \<Rightarrow>
   (memory, remote) HTTPClientOptions" where
  "opts_of g m =
     \<lparr>Given = g, HTTPURLs = m, PrioritizeHTTP = False, RateLimitWaitMax = 0,
      RefreshUnknownKID = None, storageOptions = []\<rparr>"

definition client_of ::
  "bool \<Rightarrow> Limiter option \<Rightarrow> memory \<Rightarrow> (string \<times> remote HTTPStorage) list \<Rightarrow>
   (memory, remote) HTTPClient" where
  "client_of prio limiter g m =
     \<lparr>given = g, httpURLs = m, prioritizeHTTP = prio, rateLimitWaitMax = 0,
      refreshUnknownKID = limiter\<rparr>"

definition keyA :: JWK where
  "keyA = JWK ''A'' ''local''"

definition keyA' :: JWK where
  "keyA' = JWK ''A'' ''remote''"

definition keyB :: JWK where
  "keyB = JWK ''B'' ''remote''"

definition keyC :: JWK where
  "keyC = JWK ''C'' ''remote''"

text \<open>The example of the specification: local = {A}, remote1 = {A, B}, remote2 = {C}.\<close>

definition three_sources :: "(memory, remote) HTTPClient" where
  "three_sources =
     client_of False None (Memory [keyA] None)
       [(''https://one.example/jwks'', remoteStore None [keyA', keyB] None (Inr [])),
        (''https://two.example/jwks'', remoteStore None [keyC] None (Inr []))]"

text \<open>The key ID A held by the local store and by a remote store.\<close>

definition two_holders :: "(memory, remote) HTTPClient" where
  "two_holders =
     client_of False None (Memory [keyA] None)
       [(''https://one.example/jwks'', remoteStore None [keyA'] None (Inr []))]"

text \<open>
  A client whose first remote store fails, one whose remote stores have yet to fetch their
  keys (one endpoint is unreachable), and one whose two remote stores hold the same key ID.
\<close>

definition keyA'' :: JWK where
  "keyA'' = JWK ''A'' ''other remote''"

definition failing_first :: "(memory, remote) HTTPClient" where
  "failing_first =
     client_of True None (Memory [keyA] None)
       [(''https://one.example/jwks'',
           remoteStore None [] (Some (Other ''connection reset'')) (Inr [])),
        (''https://two.example/jwks'', remoteStore None [keyA'] None (Inr []))]"


definition two_copies :: "(memory, remote) HTTPClient" where
  "two_copies =
     client_of True None (Memory [] None)
       [(''https://one.example/jwks'', remoteStore None [keyA'] None (Inr [])),
        (''https://two.example/jwks'', remoteStore None [keyA''] None (Inr []))]"

section \<open>Facts about ranging over a map\<close>

lemmas store_defs = memoryStorage_def remoteMethods_def read_key_def delete_key_def
  client_of_def remoteStore_def go_range_def go_map_def range_order_def

lemmas key_defs = keyA_def keyA'_def keyB_def keyC_def


lemmas read_defs = KeyRead_def KeyRead_refresh_def read_switch_def wait_context_def
  given_read_failed_def http_read_failed_def not_found_def wait_failed_def
  missing_reply_def settled_def passes_def visit_def early_calls_def
  admitted_def never_admitted_def Let_def

lemmas run_defs = opts_of_def NewHTTPClient_def go_range_def go_map_def range_order_def
  parseHTTPS_def newEmptyStore_def newFailing_def stores_def parse_failed_def create_failed_def
  zeroStorageOptions_def remoteStore_def

lemma go_range_set_gen:
  "set (go_range m ord) = {(u, v). u \<in> set ord \<and> map_of m u = Some v}"
  by (induction ord) (auto simp: go_range_def split: option.splits)

lemma go_range_set:
  "go_map m \<Longrightarrow> range_order m ord \<Longrightarrow> set (go_range m ord) = set m"
  unfolding go_range_set_gen
  by (auto simp: go_map_def range_order_def dest: map_of_SomeD intro: rev_image_eqI)

lemma go_range_keys_gen:
  "set ord \<subseteq> fst ` set m \<Longrightarrow> map fst (go_range m ord) = ord"
proof (induction ord)
  case Nil
  then show ?case by (simp add: go_range_def)
next
  case (Cons u ord)
  then obtain v where "map_of m u = Some v"
    by (metis (no_types, opaque_lifting) domD dom_map_of_conv_image_fst insert_subset list.simps(15))
  with Cons show ?case by (simp add: go_range_def)
qed

lemma go_range_keys:
  "range_order m ord \<Longrightarrow> map fst (go_range m ord) = ord"
  by (simp add: go_range_keys_gen range_order_def)

lemma go_range_distinct:
  "range_order m ord \<Longrightarrow> distinct (go_range m ord)"
  by (metis distinct_map go_range_keys range_order_def)

lemma go_range_mset:
  "go_map m \<Longrightarrow> range_order m ord \<Longrightarrow> mset (go_range m ord) = mset m"
  by (metis distinct_map go_map_def go_range_distinct go_range_set set_eq_iff_mset_eq_distinct)

section \<open>Construction: when it fails\<close>

lemma errors_Is_parse_failed: "errors_Is (parse_failed u e) ErrNewClient"
  by (simp add: parse_failed_def)

lemma errors_Is_create_failed: "errors_Is (create_failed u e) ErrNewClient"
  by (simp add: create_failed_def)

lemma carries_parse_failed: "carries (parse_failed u e) u"
  by (simp add: parse_failed_def)

lemma fill_stores_fails_iff:
  "isl (fill_stores parse new ents m) \<longleftrightarrow>
     (\<exists>u. (u, None) \<in> set ents \<and> (isl (parse u) \<or> isl (new None zeroStorageOptions)))"
proof (induction ents arbitrary: m)
  case Nil
  then show ?case by simp
next
  case (Cons a ents)
  obtain u st where a: "a = (u, st)" by (cases a)
  show ?case
  proof (cases st)
    case None
    then show ?thesis using Cons a
      by (auto split: sum.splits simp: isl_def)
  next
    case (Some s)
    then show ?thesis using Cons a by auto
  qed
qed

lemma fill_stores_error:
  "fill_stores parse new ents m = Inl e \<Longrightarrow>
     (\<exists>u x. (u, None) \<in> set ents \<and> parse u = Inl x \<and> e = parse_failed u x) \<or>
     (\<exists>u p x. (u, None) \<in> set ents \<and> parse u = Inr p \<and> new None zeroStorageOptions = Inl x \<and>
        e = create_failed (String p) x)"
proof (induction ents arbitrary: m)
  case Nil
  then show ?case by simp
next
  case (Cons a ents)
  obtain u st where a: "a = (u, st)" by (cases a)
  show ?case
  proof (cases st)
    case None
    then show ?thesis using Cons a
      by (fastforce split: sum.splits)
  next
    case (Some s)
    then show ?thesis using Cons a by fastforce
  qed
qed

lemma fill_stores_all_built:
  "\<forall>(u, st)\<in>set ents. st \<noteq> None \<Longrightarrow> fill_stores parse new ents m = Inr m"
  by (induction ents arbitrary: m) auto

lemma fill_stores_cong:
  "\<forall>u. (u, None) \<in> set ents \<longrightarrow> parse u = parse' u \<Longrightarrow>
   fill_stores parse new ents m = fill_stores parse' new ents m"
proof (induction ents arbitrary: m)
  case Nil
  then show ?case by simp
next
  case (Cons a ents)
  obtain u st where a: "a = (u, st)" by (cases a)
  show ?case using Cons a by (cases st) (auto split: sum.splits)
qed

lemma stores_keys:
  "\<forall>(u, st)\<in>set m. st \<noteq> None \<Longrightarrow> map fst (stores m) = map fst m"
  by (induction m) (auto simp: stores_def)

text \<open>
  Claim C9, as the code has it. \<^verbatim>\<open>NewHTTPClient\<close> fails exactly when no local store is
  supplied and the mapping of remote sources is empty, or when, for some identifier supplied
  without a store, the identifier does not parse or the store for it cannot be created
  (\<^verbatim>\<open>NewStorageFromHTTP\<close> returns an error). Every failure is a construction error
  (\<^verbatim>\<open>ErrNewClient\<close>); that of an identifier that does not parse names the identifier. When
  construction succeeds and no local store was supplied, the local store of the client is
  the empty in-memory store.
\<close>

theorem NewHTTPClient_fails_iff:
  assumes "go_map (HTTPURLs opts)" and "range_order (HTTPURLs opts) ord"
  shows "(isl (NewHTTPClient parse new mem ord opts) \<longleftrightarrow>
            (Given opts = None \<and> HTTPURLs opts = []) \<or>
            (\<exists>u. (u, None) \<in> set (HTTPURLs opts) \<and>
                 (isl (parse u) \<or> isl (new None zeroStorageOptions)))) \<and>
         (\<forall>e. NewHTTPClient parse new mem ord opts = Inl e \<longrightarrow>
            errors_Is e ErrNewClient \<and>
            (e = Errorf [] ErrNewClient [Lit '': no given keys or HTTP URLs''] \<and>
               Given opts = None \<and> HTTPURLs opts = [] \<or>
             (\<exists>u x. (u, None) \<in> set (HTTPURLs opts) \<and> parse u = Inl x \<and>
                e = parse_failed u x \<and> carries e u) \<or>
             (\<exists>u p x. (u, None) \<in> set (HTTPURLs opts) \<and> parse u = Inr p \<and>
                new None zeroStorageOptions = Inl x \<and> e = create_failed (String p) x))) \<and>
         (\<forall>c. NewHTTPClient parse new mem ord opts = Inr c \<longrightarrow>
            given c = (case Given opts of None \<Rightarrow> mem | Some g \<Rightarrow> g))"
proof -
  let ?m = "HTTPURLs opts"
  have ents: "set (go_range ?m ord) = set ?m"
    using assms by (rule go_range_set)
  have iff: "isl (NewHTTPClient parse new mem ord opts) \<longleftrightarrow>
            (Given opts = None \<and> ?m = []) \<or>
            (\<exists>u. (u, None) \<in> set ?m \<and> (isl (parse u) \<or> isl (new None zeroStorageOptions)))"
  proof (cases "Given opts = None \<and> ?m = []")
    case True
    then show ?thesis by (simp add: NewHTTPClient_def)
  next
    case False
    then have "isl (NewHTTPClient parse new mem ord opts) \<longleftrightarrow>
               isl (fill_stores parse new (go_range ?m ord) ?m)"
      by (auto simp: NewHTTPClient_def split: sum.splits)
    then show ?thesis using False ents by (auto simp: fill_stores_fails_iff)
  qed
  have err: "errors_Is e ErrNewClient \<and>
            (e = Errorf [] ErrNewClient [Lit '': no given keys or HTTP URLs''] \<and>
               Given opts = None \<and> ?m = [] \<or>
             (\<exists>u x. (u, None) \<in> set ?m \<and> parse u = Inl x \<and>
                e = parse_failed u x \<and> carries e u) \<or>
             (\<exists>u p x. (u, None) \<in> set ?m \<and> parse u = Inr p \<and>
                new None zeroStorageOptions = Inl x \<and> e = create_failed (String p) x))"
    if e: "NewHTTPClient parse new mem ord opts = Inl e" for e
  proof (cases "Given opts = None \<and> ?m = []")
    case True
    then show ?thesis using e by (auto simp: NewHTTPClient_def)
  next
    case False
    then have "fill_stores parse new (go_range ?m ord) ?m = Inl e"
      using e by (auto simp: NewHTTPClient_def split: sum.splits)
    from fill_stores_error [OF this] show ?thesis
      unfolding ents
      by (auto simp: errors_Is_parse_failed errors_Is_create_failed carries_parse_failed)
  qed
  have ok: "given c = (case Given opts of None \<Rightarrow> mem | Some g \<Rightarrow> g)"
    if "NewHTTPClient parse new mem ord opts = Inr c" for c
    using that by (auto simp: NewHTTPClient_def split: sum.splits if_splits)
  show ?thesis using iff err ok by blast
qed

theorem NewHTTPClient_fails_iff_witness:
  "go_map (HTTPURLs (opts_of None [(''not a url'', None)])) \<and>
   range_order (HTTPURLs (opts_of None [(''not a url'', None)])) [''not a url''] \<and>
   NewHTTPClient parseHTTPS newEmptyStore (Memory [] None) [''not a url'']
       (opts_of None [(''not a url'', None)]) =
     Inl (parse_failed ''not a url'' (Other ''invalid URI for request'')) \<and>
   errors_Is (parse_failed ''not a url'' (Other ''invalid URI for request'')) ErrNewClient \<and>
   go_map (HTTPURLs (opts_of None [(''https://a.example/jwks'', None)])) \<and>
   range_order (HTTPURLs (opts_of None [(''https://a.example/jwks'', None)]))
     [''https://a.example/jwks''] \<and>
   \<not> isl (NewHTTPClient parseHTTPS newEmptyStore (Memory [] None) [''https://a.example/jwks'']
       (opts_of None [(''https://a.example/jwks'', None)])) \<and>
   given (projr (NewHTTPClient parseHTTPS newEmptyStore (Memory [] None) [''https://a.example/jwks'']
       (opts_of None [(''https://a.example/jwks'', None)]))) = Memory [] None"
proof -
  let ?bad = "opts_of None [(''not a url'', None)] :: (memory, remote) HTTPClientOptions"
  let ?good = "opts_of None [(''https://a.example/jwks'', None)] :: (memory, remote) HTTPClientOptions"
  have b1: "go_map (HTTPURLs ?bad)" and b2: "range_order (HTTPURLs ?bad) [''not a url'']"
    by (simp_all add: run_defs)
  have g1: "go_map (HTTPURLs ?good)"
    and g2: "range_order (HTTPURLs ?good) [''https://a.example/jwks'']"
    by (simp_all add: run_defs)
  have bad: "NewHTTPClient parseHTTPS newEmptyStore (Memory [] None) [''not a url''] ?bad =
     Inl (parse_failed ''not a url'' (Other ''invalid URI for request''))"
    by (simp add: run_defs)
  have good: "\<not> isl (NewHTTPClient parseHTTPS newEmptyStore (Memory [] None)
      [''https://a.example/jwks''] ?good)"
    by (simp add: run_defs)
  note B = NewHTTPClient_fails_iff [OF b1 b2, of parseHTTPS newEmptyStore "Memory [] None"]
  note G = NewHTTPClient_fails_iff [OF g1 g2, of parseHTTPS newEmptyStore "Memory [] None"]
  from B bad have "errors_Is (parse_failed ''not a url'' (Other ''invalid URI for request'')) ErrNewClient"
    by blast
  moreover from G good have "given (projr (NewHTTPClient parseHTTPS newEmptyStore (Memory [] None)
      [''https://a.example/jwks''] ?good)) = Memory [] None"
    by (metis (no_types, lifting) HTTPClientOptions.select_convs(1) opts_of_def option.simps(4) sum.collapse(2))
  ultimately show ?thesis using b1 b2 g1 g2 bad good by simp
qed

text \<open>
  The claim C9 as written, that construction fails for no other reason than the two it
  names, is false: with a local store supplied and one identifier that parses,
  construction fails when the store for the identifier cannot be created.
\<close>

theorem NewHTTPClient_other_failure_counterexample:
  "isl (NewHTTPClient parseHTTPS newFailing (Memory [] None) [''https://a.example/jwks'']
         (opts_of (Some (Memory [] None)) [(''https://a.example/jwks'', None)])) \<and>
   \<not> (Given (opts_of (Some (Memory [] None)) [(''https://a.example/jwks'', None)]) = None \<and>
      HTTPURLs (opts_of (Some (Memory [] None)) [(''https://a.example/jwks'', None)]) = []) \<and>
   \<not> list_ex (\<lambda>(u, st). st = None \<and> isl (parseHTTPS u))
      (HTTPURLs (opts_of (Some (Memory [] None)) [(''https://a.example/jwks'', None)]))"
  by (simp add: run_defs)

section \<open>Construction: identifiers that come with a store\<close>

text \<open>
  Claim C10. \<^verbatim>\<open>NewHTTPClient\<close> parses an identifier only when its entry has no store:
  replacing the parser by one that agrees with it on the identifiers without a store changes
  nothing. When every identifier comes with a store (and there is one at least),
  construction succeeds whatever the parser says of the identifiers, and the client holds
  the mapping as it was given, the identifiers unchanged.
\<close>

theorem NewHTTPClient_prebuilt_unparsed:
  assumes "go_map (HTTPURLs opts)" and "range_order (HTTPURLs opts) ord"
  shows "((\<forall>u. (u, None) \<in> set (HTTPURLs opts) \<longrightarrow> parse u = parse' u) \<longrightarrow>
            NewHTTPClient parse new mem ord opts = NewHTTPClient parse' new mem ord opts) \<and>
         ((\<forall>(u, st)\<in>set (HTTPURLs opts). st \<noteq> None) \<and> HTTPURLs opts \<noteq> [] \<longrightarrow>
            NewHTTPClient parse new mem ord opts =
              Inr \<lparr>given = (case Given opts of None \<Rightarrow> mem | Some g \<Rightarrow> g),
                   httpURLs = stores (HTTPURLs opts),
                   prioritizeHTTP = PrioritizeHTTP opts,
                   rateLimitWaitMax = RateLimitWaitMax opts,
                   refreshUnknownKID = RefreshUnknownKID opts\<rparr> \<and>
            map fst (stores (HTTPURLs opts)) = map fst (HTTPURLs opts))"
proof -
  let ?m = "HTTPURLs opts"
  have ents: "set (go_range ?m ord) = set ?m"
    using assms by (rule go_range_set)
  have a: "NewHTTPClient parse new mem ord opts = NewHTTPClient parse' new mem ord opts"
    if "\<forall>u. (u, None) \<in> set ?m \<longrightarrow> parse u = parse' u"
  proof -
    have "fill_stores parse new (go_range ?m ord) ?m = fill_stores parse' new (go_range ?m ord) ?m"
      using that ents by (intro fill_stores_cong) simp
    then show ?thesis by (simp add: NewHTTPClient_def)
  qed
  have b: "NewHTTPClient parse new mem ord opts =
              Inr \<lparr>given = (case Given opts of None \<Rightarrow> mem | Some g \<Rightarrow> g),
                   httpURLs = stores ?m,
                   prioritizeHTTP = PrioritizeHTTP opts,
                   rateLimitWaitMax = RateLimitWaitMax opts,
                   refreshUnknownKID = RefreshUnknownKID opts\<rparr> \<and>
            map fst (stores ?m) = map fst ?m"
    if "(\<forall>(u, st)\<in>set ?m. st \<noteq> None) \<and> ?m \<noteq> []"
  proof -
    have "fill_stores parse new (go_range ?m ord) ?m = Inr ?m"
      using that ents by (intro fill_stores_all_built) simp
    then show ?thesis using that by (simp add: NewHTTPClient_def stores_keys)
  qed
  show ?thesis using a b by blast
qed

theorem NewHTTPClient_prebuilt_unparsed_witness:
  "go_map (HTTPURLs (opts_of None [(''not a url'', Some (remoteStore None [] None (Inr [])))])) \<and>
   range_order (HTTPURLs (opts_of None [(''not a url'', Some (remoteStore None [] None (Inr [])))]))
     [''not a url''] \<and>
   isl (parseHTTPS ''not a url'') \<and>
   NewHTTPClient parseHTTPS newFailing (Memory [] None) [''not a url'']
       (opts_of None [(''not a url'', Some (remoteStore None [] None (Inr [])))]) =
     Inr \<lparr>given = Memory [] None,
          httpURLs = [(''not a url'', remoteStore None [] None (Inr []))],
          prioritizeHTTP = False, rateLimitWaitMax = 0, refreshUnknownKID = None\<rparr>"
proof -
  let ?o = "opts_of None [(''not a url'', Some (remoteStore None [] None (Inr [])))]"
  have h1: "go_map (HTTPURLs ?o)" and h2: "range_order (HTTPURLs ?o) [''not a url'']"
    by (simp_all add: run_defs)
  have h3: "(\<forall>(u, st)\<in>set (HTTPURLs ?o). st \<noteq> None) \<and> HTTPURLs ?o \<noteq> []"
    by (simp add: run_defs)
  from NewHTTPClient_prebuilt_unparsed [OF h1 h2, of parseHTTPS parseHTTPS newFailing "Memory [] None"] h3
  have "NewHTTPClient parseHTTPS newFailing (Memory [] None) [''not a url''] ?o =
     Inr \<lparr>given = (case Given ?o of None \<Rightarrow> Memory [] None | Some g \<Rightarrow> g),
          httpURLs = stores (HTTPURLs ?o),
          prioritizeHTTP = PrioritizeHTTP ?o,
          rateLimitWaitMax = RateLimitWaitMax ?o,
          refreshUnknownKID = RefreshUnknownKID ?o\<rparr>"
    by blast
  then show ?thesis using h1 h2 by (simp add: run_defs)
qed

section \<open>KeyReadAll\<close>

lemma readall_loop_ok:
  "\<forall>(u, s)\<in>set ents. \<not> isl (hKeyReadAll H s ctx) \<Longrightarrow>
   readall_loop H ctx ents acc = Inr (acc @ concat (map (\<lambda>(u, s). remote_keys H ctx s) ents))"
  by (induction ents arbitrary: acc) (auto simp: remote_keys_def split: sum.splits)

lemma readall_loop_fails:
  "\<exists>(u, s)\<in>set ents. isl (hKeyReadAll H s ctx) \<Longrightarrow>
   \<exists>u s e. (u, s) \<in> set ents \<and> hKeyReadAll H s ctx = Inl e \<and>
     readall_loop H ctx ents acc = Inl (http_snapshot_failed u e)"
proof (induction ents arbitrary: acc)
  case Nil
  then show ?case by simp
next
  case (Cons a ents)
  obtain u s where a: "a = (u, s)" by (cases a)
  show ?case
  proof (cases "hKeyReadAll H s ctx")
    case (Inl e)
    then show ?thesis using a by auto
  next
    case (Inr j)
    then have "\<exists>(u, s)\<in>set ents. isl (hKeyReadAll H s ctx)"
      using Cons.prems a by auto
    from Cons.IH [OF this, of "acc @ j"] show ?thesis using a Inr by auto
  qed
qed

lemma mset_concat_map:
  "mset (concat (map f xs)) = (\<Sum>x\<in>#mset xs. mset (f x))"
  by (induction xs) auto

lemma carries_http_snapshot_failed: "carries (http_snapshot_failed u e) u"
  by (simp add: http_snapshot_failed_def)

text \<open>
  Claim C7. \<^verbatim>\<open>KeyReadAll\<close> returns the keys of the local store followed by the keys of
  every remote store, appended in the order the stores are visited, with nothing removed:
  whatever that order, the result holds, as a multiset, the keys of the local store and all
  the keys of all the remote stores, duplicates included. A failure of the local store
  aborts the call wrapped; a failure of a remote store aborts it wrapped with the
  identifier of that store.
\<close>

theorem KeyReadAll_concatenates:
  assumes "go_map (httpURLs c)" and "range_order (httpURLs c) ord"
  shows "(\<forall>e. sKeyReadAll S (given c) ctx = Inl e \<longrightarrow>
            KeyReadAll S H c ord ctx = Inl (given_snapshot_failed e)) \<and>
         (\<forall>g. sKeyReadAll S (given c) ctx = Inr g \<and>
              (\<forall>(u, s)\<in>set (httpURLs c). \<not> isl (hKeyReadAll H s ctx)) \<longrightarrow>
            KeyReadAll S H c ord ctx =
              Inr (g @ concat (map (\<lambda>(u, s). remote_keys H ctx s) (go_range (httpURLs c) ord))) \<and>
            mset (projr (KeyReadAll S H c ord ctx)) =
              mset g + (\<Sum>(u, s)\<in>#mset (httpURLs c). mset (remote_keys H ctx s))) \<and>
         (\<forall>g. sKeyReadAll S (given c) ctx = Inr g \<and>
              (\<exists>(u, s)\<in>set (httpURLs c). isl (hKeyReadAll H s ctx)) \<longrightarrow>
            (\<exists>u s e. (u, s) \<in> set (httpURLs c) \<and> hKeyReadAll H s ctx = Inl e \<and>
               KeyReadAll S H c ord ctx = Inl (http_snapshot_failed u e) \<and>
               carries (http_snapshot_failed u e) u))"
proof -
  let ?m = "httpURLs c"
  let ?ents = "go_range ?m ord"
  have ents: "set ?ents = set ?m" using assms by (rule go_range_set)
  have perm: "mset ?ents = mset ?m" using assms by (rule go_range_mset)
  have a: "KeyReadAll S H c ord ctx = Inl (given_snapshot_failed e)"
    if "sKeyReadAll S (given c) ctx = Inl e" for e
    using that by (simp add: KeyReadAll_def)
  have b: "KeyReadAll S H c ord ctx =
              Inr (g @ concat (map (\<lambda>(u, s). remote_keys H ctx s) ?ents)) \<and>
            mset (projr (KeyReadAll S H c ord ctx)) =
              mset g + (\<Sum>(u, s)\<in>#mset ?m. mset (remote_keys H ctx s))"
    if g: "sKeyReadAll S (given c) ctx = Inr g"
      and ok: "\<forall>(u, s)\<in>set ?m. \<not> isl (hKeyReadAll H s ctx)" for g
  proof -
    have "\<forall>(u, s)\<in>set ?ents. \<not> isl (hKeyReadAll H s ctx)" using ok ents by simp
    then have r: "KeyReadAll S H c ord ctx =
        Inr (g @ concat (map (\<lambda>(u, s). remote_keys H ctx s) ?ents))"
      using g by (simp add: KeyReadAll_def readall_loop_ok)
    have "mset (concat (map (\<lambda>(u, s). remote_keys H ctx s) ?ents)) =
        (\<Sum>x\<in>#mset ?ents. mset ((\<lambda>(u, s). remote_keys H ctx s) x))"
      by (rule mset_concat_map)
    also have "\<dots> = (\<Sum>(u, s)\<in>#mset ?m. mset (remote_keys H ctx s))"
      unfolding perm by (simp add: case_prod_unfold)
    finally show ?thesis using r by simp
  qed
  have c: "\<exists>u s e. (u, s) \<in> set ?m \<and> hKeyReadAll H s ctx = Inl e \<and>
               KeyReadAll S H c ord ctx = Inl (http_snapshot_failed u e) \<and>
               carries (http_snapshot_failed u e) u"
    if g: "sKeyReadAll S (given c) ctx = Inr g"
      and bad: "\<exists>(u, s)\<in>set ?m. isl (hKeyReadAll H s ctx)" for g
  proof -
    have "\<exists>(u, s)\<in>set ?ents. isl (hKeyReadAll H s ctx)" using bad ents by simp
    from readall_loop_fails [OF this, of g] show ?thesis
      using g ents by (auto simp: KeyReadAll_def carries_http_snapshot_failed)
  qed
  show ?thesis using a b c by blast
qed

theorem KeyReadAll_concatenates_witness:
  "go_map (httpURLs three_sources) \<and>
   range_order (httpURLs three_sources) [''https://two.example/jwks'', ''https://one.example/jwks''] \<and>
   KeyReadAll memoryStorage remoteMethods three_sources
     [''https://two.example/jwks'', ''https://one.example/jwks''] Background =
     Inr [keyA, keyC, keyA', keyB] \<and>
   mset (projr (KeyReadAll memoryStorage remoteMethods three_sources
     [''https://two.example/jwks'', ''https://one.example/jwks''] Background)) =
     {#keyA, keyA', keyB, keyC#} \<and>
   KeyReadAll memoryStorage remoteMethods failing_first
     [''https://two.example/jwks'', ''https://one.example/jwks''] Background =
     Inl (http_snapshot_failed ''https://one.example/jwks'' (Other ''connection reset''))"
proof -
  let ?ord = "[''https://two.example/jwks'', ''https://one.example/jwks'']"
  have h1: "go_map (httpURLs three_sources)"
    and h2: "range_order (httpURLs three_sources) ?ord"
    by (auto simp: three_sources_def store_defs)
  have g: "sKeyReadAll memoryStorage (given three_sources) Background = Inr [keyA]"
    by (simp add: three_sources_def store_defs)
  have ok: "\<forall>(u, s)\<in>set (httpURLs three_sources). \<not> isl (hKeyReadAll remoteMethods s Background)"
    by (simp add: three_sources_def store_defs)
  from KeyReadAll_concatenates [OF h1 h2, of memoryStorage Background remoteMethods] g ok
  have "KeyReadAll memoryStorage remoteMethods three_sources ?ord Background =
      Inr ([keyA] @ concat (map (\<lambda>(u, s). remote_keys remoteMethods Background s)
        (go_range (httpURLs three_sources) ?ord)))"
    and "mset (projr (KeyReadAll memoryStorage remoteMethods three_sources ?ord Background)) =
      mset [keyA] + (\<Sum>(u, s)\<in>#mset (httpURLs three_sources). mset (remote_keys remoteMethods Background s))"
    by blast+
  moreover have "KeyReadAll memoryStorage remoteMethods failing_first ?ord Background =
      Inl (http_snapshot_failed ''https://one.example/jwks'' (Other ''connection reset''))"
    by (simp add: failing_first_def store_defs KeyReadAll_def)
  ultimately show ?thesis using h1 h2
    by (simp add: three_sources_def store_defs remote_keys_def)
qed

section \<open>The exports\<close>

lemma spec_write_Inl: "spec_write S ctx jwk (Inl e) = Inl e"
  by (simp add: spec_write_def)

lemma spec_write_Inr:
  "spec_write S ctx jwk (Inr m) =
     (case sKeyWrite S m ctx jwk of (Some e, m') \<Rightarrow> Inl (write_failed e) | (None, m') \<Rightarrow> Inr m')"
  by (simp add: spec_write_def split: prod.splits option.splits)

lemma fold_spec_write_Inl: "fold (spec_write S ctx) jwks (Inl e) = Inl e"
  by (induction jwks) (simp_all add: spec_write_Inl)

lemma write_loop_fold: "write_loop S ctx jwks m = fold (spec_write S ctx) jwks (Inr m)"
proof (induction jwks arbitrary: m)
  case Nil
  then show ?case by simp
next
  case (Cons jwk jwks)
  show ?case
  proof (cases "sKeyWrite S m ctx jwk")
    case (Pair e m')
    then show ?thesis using Cons
      by (cases e) (simp_all add: spec_write_Inr fold_spec_write_Inl)
  qed
qed

lemma combineStorage_spec:
  "combineStorage S H fresh c ord ctx = spec_combine S H fresh c ord ctx"
  by (simp add: combineStorage_def spec_combine_def write_loop_fold split: sum.splits)

text \<open>
  Claim C8. \<^verbatim>\<open>combineStorage\<close> is the specification's \<^verbatim>\<open>combine()\<close>, and each of
  the six exports of the client is the corresponding export of the combined store, with a
  failure to combine wrapped: the client formats nothing itself.
\<close>

theorem exports_delegate_to_combined:
  "combineStorage S H fresh c ord ctx = spec_combine S H fresh c ord ctx \<and>
   JSON S H fresh c ord ctx = spec_export S H fresh c ord ctx (sJSON S) \<and>
   JSONPublic S H fresh c ord ctx = spec_export S H fresh c ord ctx (sJSONPublic S) \<and>
   JSONPrivate S H fresh c ord ctx = spec_export S H fresh c ord ctx (sJSONPrivate S) \<and>
   JSONWithOptions S H fresh c ord ctx mo vo =
     spec_export S H fresh c ord ctx (\<lambda>m x. sJSONWithOptions S m x mo vo) \<and>
   Marshal S H fresh c ord ctx = spec_export S H fresh c ord ctx (sMarshal S) \<and>
   MarshalWithOptions S H fresh c ord ctx mo vo =
     spec_export S H fresh c ord ctx (\<lambda>m x. sMarshalWithOptions S m x mo vo)"
  by (simp add: combineStorage_spec spec_export_def JSON_def JSONPublic_def JSONPrivate_def
      JSONWithOptions_def Marshal_def MarshalWithOptions_def)

section \<open>KeyDelete: the first holder\<close>

lemma update_keys_same:
  "u \<in> fst ` set m \<Longrightarrow> map fst (AList.update u v m) = map fst m"
  by (simp add: update_keys)








lemma find_filter_out: "find (\<lambda>j. KID j = k) (filter (\<lambda>j. KID j \<noteq> k) ks) = None"
  by (induction ks) auto

lemma memory_delete_effective: "local_delete_effective memoryStorage ctx keyID g"
  by (cases g)
    (auto simp: local_delete_effective_def memoryStorage_def delete_key_def fatal_def
      absent_reply_def find_filter_out split: option.splits)

lemma remote_delete_effective_stub: "remote_delete_effective remoteMethods ctx keyID s"
  by (cases "rfault (hidden s)")
    (auto simp: remote_delete_effective_def remoteMethods_def delete_key_def fatal_def
      absent_reply_def find_filter_out split: option.splits)




section \<open>KeyRead: its stages\<close>

lemma read_switch_missing: "missing_reply r \<Longrightarrow> read_switch wrap r = None"
  by (auto simp: missing_reply_def read_switch_def split: sum.splits)

lemma read_switch_settled: "\<not> missing_reply r \<Longrightarrow> read_switch wrap r = Some (settled wrap r)"
  by (auto simp: missing_reply_def read_switch_def settled_def split: sum.splits)

lemma read_loop_missing:
  "\<forall>(v, p)\<in>set ents. missing_reply (hKeyRead H p ctx keyID) \<Longrightarrow>
   read_loop H ctx keyID ents = (None, map HTTPKeyRead (map fst ents))"
  by (induction ents) (auto simp: read_switch_missing)

lemma read_loop_settled:
  "\<forall>(v, p)\<in>set pre. missing_reply (hKeyRead H p ctx keyID) \<Longrightarrow>
   \<not> missing_reply (hKeyRead H s ctx keyID) \<Longrightarrow>
   read_loop H ctx keyID (pre @ (u, s) # post) =
     (Some (settled (http_read_failed keyID) (hKeyRead H s ctx keyID)),
      map HTTPKeyRead (map fst pre @ [u]))"
  by (induction pre) (auto simp: read_switch_missing read_switch_settled)

lemma visit_refreshes: "refreshes (concat (map (visit H ctx) ents) @ t) = map fst ents @ refreshes t"
  by (induction ents) (auto simp: visit_def split: prod.splits option.splits)

lemma refresh_loop_passes:
  assumes "\<forall>(v, p)\<in>set ents. passes H ctx keyID p"
    and "fst ` set ents \<subseteq> fst ` set m"
  shows "\<exists>m'. refresh_loop H ctx keyID ents m = (None, m', concat (map (visit H ctx) ents)) \<and>
           map fst m' = map fst m"
  using assms
proof (induction ents arbitrary: m)
  case Nil
  then show ?case by simp
next
  case (Cons a ents)
  obtain u s where a: "a = (u, s)" by (cases a)
  obtain e s' where r: "hrefresh H s ctx = (e, s')" by (cases "hrefresh H s ctx")
  let ?m = "AList.update u s' m"
  have k: "map fst ?m = map fst m" using Cons.prems a by (simp add: update_keys_same)
  have "fst ` set ents \<subseteq> fst ` set ?m"
    using Cons.prems(2) k by (metis list.set_map set_subset_Cons subset_trans image_mono)
  with Cons.IH [of ?m] Cons.prems(1)
  obtain m' where m': "refresh_loop H ctx keyID ents ?m = (None, m', concat (map (visit H ctx) ents))"
    and "map fst m' = map fst ?m" by auto
  moreover have "e = None \<Longrightarrow> read_switch (http_read_failed keyID) (hKeyRead H s' ctx keyID) = None"
    using Cons.prems(1) a r by (simp add: passes_def read_switch_missing)
  ultimately show ?case using a r k by (cases e) (simp_all add: visit_def)
qed

lemma refresh_loop_settled:
  assumes "\<forall>(v, p)\<in>set pre. passes H ctx keyID p"
    and "\<not> passes H ctx keyID s"
    and "fst ` set (pre @ (u, s) # post) \<subseteq> fst ` set m"
  shows "\<exists>m'. refresh_loop H ctx keyID (pre @ (u, s) # post) m =
           (Some (settled (http_read_failed keyID) (hKeyRead H (snd (hrefresh H s ctx)) ctx keyID)),
            m', concat (map (visit H ctx) pre) @ [HTTPRefresh u ctx, HTTPKeyRead u]) \<and>
           map fst m' = map fst m \<and>
           (\<forall>v. v \<notin> fst ` set pre \<and> v \<noteq> u \<longrightarrow> map_of m' v = map_of m v)"
  using assms
proof (induction pre arbitrary: m)
  case Nil
  obtain e s' where r: "hrefresh H s ctx = (e, s')" by (cases "hrefresh H s ctx")
  have e: "e = None" and ns: "\<not> missing_reply (hKeyRead H s' ctx keyID)"
    using Nil.prems(2) r by (auto simp: passes_def split: option.splits)
  have k: "map fst (AList.update u s' m) = map fst m" using Nil.prems by (simp add: update_keys_same)
  show ?case using r e ns k by (simp add: read_switch_settled update_conv')
next
  case (Cons a pre)
  obtain v p where a: "a = (v, p)" by (cases a)
  obtain e p' where r: "hrefresh H p ctx = (e, p')" by (cases "hrefresh H p ctx")
  let ?m = "AList.update v p' m"
  have k: "map fst ?m = map fst m" using Cons.prems a by (simp add: update_keys_same)
  have sub: "fst ` set (pre @ (u, s) # post) \<subseteq> fst ` set ?m"
  proof -
    have "fst ` set (pre @ (u, s) # post) \<subseteq> fst ` set m" using Cons.prems(3) by auto
    moreover have "fst ` set ?m = fst ` set m" using k by (metis list.set_map)
    ultimately show ?thesis by simp
  qed
  from Cons.IH [OF _ Cons.prems(2) sub] Cons.prems(1)
  obtain m' where m': "refresh_loop H ctx keyID (pre @ (u, s) # post) ?m =
           (Some (settled (http_read_failed keyID) (hKeyRead H (snd (hrefresh H s ctx)) ctx keyID)),
            m', concat (map (visit H ctx) pre) @ [HTTPRefresh u ctx, HTTPKeyRead u])"
    and k': "map fst m' = map fst ?m"
    and un: "\<forall>w. w \<notin> fst ` set pre \<and> w \<noteq> u \<longrightarrow> map_of m' w = map_of ?m w"
    by auto
  have un': "\<forall>w. w \<notin> fst ` set (a # pre) \<and> w \<noteq> u \<longrightarrow> map_of m' w = map_of m w"
    using un a by (simp add: update_conv')
  have "e = None \<Longrightarrow> read_switch (http_read_failed keyID) (hKeyRead H p' ctx keyID) = None"
    using Cons.prems(1) a r by (simp add: passes_def read_switch_missing)
  then show ?case using a r k k' m' un' by (cases e) (simp_all add: visit_def)
qed

lemma KeyRead_given_first:
  assumes "\<not> prioritizeHTTP c" and "\<not> missing_reply (sKeyRead S (given c) ctx keyID)"
  shows "KeyRead S H wait c ord1 ord2 ctx keyID =
           (settled (given_read_failed keyID) (sKeyRead S (given c) ctx keyID), c, [GivenKeyRead])"
  using assms by (simp add: KeyRead_def read_switch_settled)

lemma KeyRead_remote_settles:
  assumes "prioritizeHTTP c \<or> missing_reply (sKeyRead S (given c) ctx keyID)"
    and "go_range (httpURLs c) ord1 = pre @ (u, s) # post"
    and "\<forall>(v, p)\<in>set pre. missing_reply (hKeyRead H p ctx keyID)"
    and "\<not> missing_reply (hKeyRead H s ctx keyID)"
  shows "KeyRead S H wait c ord1 ord2 ctx keyID =
           (settled (http_read_failed keyID) (hKeyRead H s ctx keyID), c,
            (if \<not> prioritizeHTTP c then [GivenKeyRead] else []) @
            map HTTPKeyRead (map fst pre @ [u]))"
  using assms read_loop_settled [OF assms(3) assms(4), of u post]
  by (auto simp: KeyRead_def read_switch_missing)

lemma KeyRead_given_last:
  assumes "prioritizeHTTP c"
    and "\<forall>(v, p)\<in>set (go_range (httpURLs c) ord1). missing_reply (hKeyRead H p ctx keyID)"
    and "\<not> missing_reply (sKeyRead S (given c) ctx keyID)"
  shows "KeyRead S H wait c ord1 ord2 ctx keyID =
           (settled (given_read_failed keyID) (sKeyRead S (given c) ctx keyID), c,
            map HTTPKeyRead (map fst (go_range (httpURLs c) ord1)) @ [GivenKeyRead])"
  using assms(1,3) read_loop_missing [OF assms(2)]
  by (simp add: KeyRead_def read_switch_settled)

lemma KeyRead_all_missing:
  assumes "missing_reply (sKeyRead S (given c) ctx keyID)"
    and "\<forall>(v, p)\<in>set (go_range (httpURLs c) ord1). missing_reply (hKeyRead H p ctx keyID)"
  shows "KeyRead S H wait c ord1 ord2 ctx keyID =
           (case KeyRead_refresh H wait c ord2 ctx keyID of
              (r, c', t) \<Rightarrow> (r, c', early_calls c (map fst (go_range (httpURLs c) ord1)) @ t))"
  using assms(1) read_loop_missing [OF assms(2)]
  by (auto simp: KeyRead_def read_switch_missing early_calls_def split: prod.splits)

lemma KeyRead_refresh_disabled:
  "refreshUnknownKID c = None \<Longrightarrow>
   KeyRead_refresh H wait c ord ctx keyID = (Inl (not_found keyID), c, [])"
  by (simp add: KeyRead_refresh_def)

lemma KeyRead_refresh_wait_fails:
  "refreshUnknownKID c = Some l \<Longrightarrow> wait l (wait_context c ctx) = Some w \<Longrightarrow>
   KeyRead_refresh H wait c ord ctx keyID =
     (Inl (wait_failed (wait_err w)), c, [LimiterWait (wait_context c ctx)])"
  by (simp add: KeyRead_refresh_def)

lemma KeyRead_refresh_all_pass:
  assumes "refreshUnknownKID c = Some l" and "wait l (wait_context c ctx) = None"
    and "\<forall>(v, p)\<in>set (go_range (httpURLs c) ord). passes H (wait_context c ctx) keyID p"
    and "fst ` set (go_range (httpURLs c) ord) \<subseteq> fst ` set (httpURLs c)"
  shows "\<exists>m'. KeyRead_refresh H wait c ord ctx keyID =
           (Inl (not_found keyID), c\<lparr>httpURLs := m'\<rparr>,
            LimiterWait (wait_context c ctx) #
            concat (map (visit H (wait_context c ctx)) (go_range (httpURLs c) ord))) \<and>
           map fst m' = map fst (httpURLs c)"
  using assms(1,2) refresh_loop_passes [OF assms(3,4)]
  by (auto simp: KeyRead_refresh_def Let_def)

lemma KeyRead_refresh_settles:
  assumes "refreshUnknownKID c = Some l" and "wait l (wait_context c ctx) = None"
    and "go_range (httpURLs c) ord = pre @ (u, s) # post"
    and "\<forall>(v, p)\<in>set pre. passes H (wait_context c ctx) keyID p"
    and "\<not> passes H (wait_context c ctx) keyID s"
    and "fst ` set (go_range (httpURLs c) ord) \<subseteq> fst ` set (httpURLs c)"
  shows "\<exists>m'. KeyRead_refresh H wait c ord ctx keyID =
           (settled (http_read_failed keyID)
              (hKeyRead H (snd (hrefresh H s (wait_context c ctx))) (wait_context c ctx) keyID),
            c\<lparr>httpURLs := m'\<rparr>,
            LimiterWait (wait_context c ctx) #
            concat (map (visit H (wait_context c ctx)) pre) @
            [HTTPRefresh u (wait_context c ctx), HTTPKeyRead u]) \<and>
           map fst m' = map fst (httpURLs c) \<and>
           (\<forall>v. v \<notin> fst ` set pre \<and> v \<noteq> u \<longrightarrow> map_of m' v = map_of (httpURLs c) v)"
proof -
  have "fst ` set (pre @ (u, s) # post) \<subseteq> fst ` set (httpURLs c)"
    using assms(3,6) by simp
  from refresh_loop_settled [OF assms(4,5) this] show ?thesis
    using assms(1,2,3) by (auto simp: KeyRead_refresh_def Let_def)
qed

lemma settled_error:
  "\<not> missing_reply r \<Longrightarrow> settled wrap r = Inl e \<Longrightarrow>
   \<exists>x. r = Inl x \<and> e = wrap x \<and> \<not> errors_Is x ErrKeyNotFound"
  by (auto simp: settled_def missing_reply_def split: sum.splits)

lemma first_unmissing:
  assumes "\<not> (\<forall>x\<in>set xs. P x)"
  obtains pre x post where "xs = pre @ x # post" and "\<forall>y\<in>set pre. P y" and "\<not> P x"
  using assms split_list_first_prop [of xs "\<lambda>x. \<not> P x"] by auto

lemma KeyRead_outcomes:
  assumes gm: "go_map (httpURLs c)"
    and o1: "range_order (httpURLs c) ord1"
    and o2: "range_order (httpURLs c) ord2"
  obtains
    (given_first) "\<not> prioritizeHTTP c" and "\<not> missing_reply (sKeyRead S (given c) ctx keyID)"
      and "KeyRead S H wait c ord1 ord2 ctx keyID =
             (settled (given_read_failed keyID) (sKeyRead S (given c) ctx keyID), c, [GivenKeyRead])"
  | (remote) pre u s post where "go_range (httpURLs c) ord1 = pre @ (u, s) # post"
      and "\<not> missing_reply (hKeyRead H s ctx keyID)"
      and "KeyRead S H wait c ord1 ord2 ctx keyID =
             (settled (http_read_failed keyID) (hKeyRead H s ctx keyID), c,
              (if \<not> prioritizeHTTP c then [GivenKeyRead] else []) @
              map HTTPKeyRead (map fst pre @ [u]))"
  | (given_last) "prioritizeHTTP c" and "\<not> missing_reply (sKeyRead S (given c) ctx keyID)"
      and "KeyRead S H wait c ord1 ord2 ctx keyID =
             (settled (given_read_failed keyID) (sKeyRead S (given c) ctx keyID), c,
              map HTTPKeyRead ord1 @ [GivenKeyRead])"
  | (disabled) "KeyRead S H wait c ord1 ord2 ctx keyID =
             (Inl (not_found keyID), c, early_calls c ord1)"
  | (wait_fails) w where "KeyRead S H wait c ord1 ord2 ctx keyID =
             (Inl (wait_failed (wait_err w)), c,
              early_calls c ord1 @ [LimiterWait (wait_context c ctx)])"
  | (all_pass) m' where "KeyRead S H wait c ord1 ord2 ctx keyID =
             (Inl (not_found keyID), c\<lparr>httpURLs := m'\<rparr>,
              early_calls c ord1 @ LimiterWait (wait_context c ctx) #
              concat (map (visit H (wait_context c ctx)) (go_range (httpURLs c) ord2)))"
  | (refreshed) pre u s post m' where "go_range (httpURLs c) ord2 = pre @ (u, s) # post"
      and "\<not> missing_reply
             (hKeyRead H (snd (hrefresh H s (wait_context c ctx))) (wait_context c ctx) keyID)"
      and "KeyRead S H wait c ord1 ord2 ctx keyID =
             (settled (http_read_failed keyID)
                (hKeyRead H (snd (hrefresh H s (wait_context c ctx))) (wait_context c ctx) keyID),
              c\<lparr>httpURLs := m'\<rparr>,
              early_calls c ord1 @ LimiterWait (wait_context c ctx) #
              concat (map (visit H (wait_context c ctx)) pre) @
              [HTTPRefresh u (wait_context c ctx), HTTPKeyRead u])"
proof -
  let ?G = "sKeyRead S (given c) ctx keyID"
  let ?e1 = "go_range (httpURLs c) ord1"
  let ?e2 = "go_range (httpURLs c) ord2"
  let ?x = "wait_context c ctx"
  have k1: "map fst ?e1 = ord1" using o1 by (rule go_range_keys)
  have s2: "fst ` set ?e2 \<subseteq> fst ` set (httpURLs c)" using go_range_set [OF gm o2] by simp
  show ?thesis
  proof (cases "\<not> prioritizeHTTP c \<and> \<not> missing_reply ?G")
    case True
    then show ?thesis using given_first KeyRead_given_first by blast
  next
    case False
    then have pm: "prioritizeHTTP c \<or> missing_reply ?G" by blast
    show ?thesis
    proof (cases "\<forall>a\<in>set ?e1. (case a of (v, p) \<Rightarrow> missing_reply (hKeyRead H p ctx keyID))")
      case False
      then obtain pre a post where sp: "?e1 = pre @ a # post"
        and pre: "\<forall>y\<in>set pre. (case y of (v, p) \<Rightarrow> missing_reply (hKeyRead H p ctx keyID))"
        and a: "\<not> (case a of (v, p) \<Rightarrow> missing_reply (hKeyRead H p ctx keyID))"
        by (rule first_unmissing)
      obtain u s where us: "a = (u, s)" by (cases a)
      have ns: "\<not> missing_reply (hKeyRead H s ctx keyID)" using a us by simp
      have sp': "?e1 = pre @ (u, s) # post" using sp us by simp
      from KeyRead_remote_settles [OF pm sp' pre ns] show ?thesis using remote sp' ns by blast
    next
      case all1: True
      show ?thesis
      proof (cases "missing_reply ?G")
        case False
        then have p: "prioritizeHTTP c" using pm by blast
        from KeyRead_given_last [OF p all1 False] show ?thesis using given_last p False k1 by simp
      next
        case mg: True
        note K = KeyRead_all_missing [OF mg all1, of wait ord2, unfolded k1]
        show ?thesis
        proof (cases "refreshUnknownKID c")
          case None
          then show ?thesis using K disabled by (simp add: KeyRead_refresh_disabled)
        next
          case (Some l)
          show ?thesis
          proof (cases "wait l ?x")
            case (Some w)
            then show ?thesis using K wait_fails \<open>refreshUnknownKID c = Some l\<close>
              by (simp add: KeyRead_refresh_wait_fails)
          next
            case None
            show ?thesis
            proof (cases "\<forall>a\<in>set ?e2. (case a of (v, p) \<Rightarrow> passes H ?x keyID p)")
              case True
              from KeyRead_refresh_all_pass [where wait = wait, OF \<open>refreshUnknownKID c = Some l\<close> None True s2]
              show ?thesis using K all_pass by auto
            next
              case False
              then obtain pre a post where sp: "?e2 = pre @ a # post"
                and pre: "\<forall>y\<in>set pre. (case y of (v, p) \<Rightarrow> passes H ?x keyID p)"
                and a: "\<not> (case a of (v, p) \<Rightarrow> passes H ?x keyID p)"
                by (rule first_unmissing)
              obtain u s where us: "a = (u, s)" by (cases a)
              have np: "\<not> passes H ?x keyID s" using a us by simp
              then have nm: "\<not> missing_reply (hKeyRead H (snd (hrefresh H s ?x)) ?x keyID)"
                by (auto simp: passes_def split: prod.splits option.splits)
              have sp': "?e2 = pre @ (u, s) # post" using sp us by simp
              from KeyRead_refresh_settles [where wait = wait, OF \<open>refreshUnknownKID c = Some l\<close> None sp' pre np s2]
              show ?thesis using K refreshed sp' nm by auto
            qed
          qed
        qed
      qed
    qed
  qed
qed

lemma not_found_is: "errors_Is (not_found keyID) ErrKeyNotFound" "carries (not_found keyID) keyID"
  by (simp_all add: not_found_def)

lemma read_failed_is:
  "errors_Is (given_read_failed keyID x) ErrKeyNotFound = errors_Is x ErrKeyNotFound"
  "errors_Is (http_read_failed keyID x) ErrKeyNotFound = errors_Is x ErrKeyNotFound"
  "carries (given_read_failed keyID x) keyID"
  "carries (http_read_failed keyID x) keyID"
  by (simp_all add: given_read_failed_def http_read_failed_def)

lemma wait_failed_is:
  "\<not> errors_Is (wait_failed (wait_err w)) ErrKeyNotFound"
  "errors_Is (wait_failed (wait_err w)) (wait_err w)"
  by (cases w; simp add: wait_failed_def)+

lemma settled_Inr: "settled wrap (Inr j) = Inr j"
  by (simp add: settled_def)

lemma not_missing_Inr: "\<not> missing_reply (Inr j)"
  by (simp add: missing_reply_def)





section \<open>KeyRead: priority\<close>

text \<open>
  Claim C2, as the code has it. With the priority flag disabled, a key that the local store
  holds is returned from the local store, and no other store is asked. With the flag
  enabled, the remote stores are asked in the order of the visit: when those asked before
  the first holder report not found, its copy is returned and the local store is not asked;
  so it is whenever some remote store holds the key and none fails with another error.
\<close>

theorem KeyRead_priority:
  assumes "go_map (httpURLs c)" and "range_order (httpURLs c) ord1"
  shows "(\<forall>j. \<not> prioritizeHTTP c \<and> sKeyRead S (given c) ctx keyID = Inr j \<longrightarrow>
            KeyRead S H wait c ord1 ord2 ctx keyID = (Inr j, c, [GivenKeyRead])) \<and>
         (\<forall>pre u s post j.
            prioritizeHTTP c \<and> go_range (httpURLs c) ord1 = pre @ (u, s) # post \<and>
            (\<forall>(v, p)\<in>set pre. missing_reply (hKeyRead H p ctx keyID)) \<and>
            hKeyRead H s ctx keyID = Inr j \<longrightarrow>
            KeyRead S H wait c ord1 ord2 ctx keyID =
              (Inr j, c, map HTTPKeyRead (map fst pre @ [u])) \<and>
            GivenKeyRead \<notin> set (snd (snd (KeyRead S H wait c ord1 ord2 ctx keyID)))) \<and>
         (prioritizeHTTP c \<and>
          (\<exists>(u, s)\<in>set (httpURLs c). \<not> isl (hKeyRead H s ctx keyID)) \<and>
          (\<forall>(u, s)\<in>set (httpURLs c).
             isl (hKeyRead H s ctx keyID) \<longrightarrow> missing_reply (hKeyRead H s ctx keyID)) \<longrightarrow>
            (\<exists>(u, s)\<in>set (httpURLs c).
               \<not> isl (hKeyRead H s ctx keyID) \<and>
               fst (KeyRead S H wait c ord1 ord2 ctx keyID) = hKeyRead H s ctx keyID) \<and>
            GivenKeyRead \<notin> set (snd (snd (KeyRead S H wait c ord1 ord2 ctx keyID))))"
proof -
  let ?K = "KeyRead S H wait c ord1 ord2 ctx keyID"
  let ?e1 = "go_range (httpURLs c) ord1"
  have ents: "set ?e1 = set (httpURLs c)" using assms by (rule go_range_set)
  have a: "?K = (Inr j, c, [GivenKeyRead])"
    if "\<not> prioritizeHTTP c \<and> sKeyRead S (given c) ctx keyID = Inr j" for j
    using that KeyRead_given_first [of c S ctx keyID H wait ord1 ord2]
    by (simp add: settled_Inr not_missing_Inr)
  have b: "?K = (Inr j, c, map HTTPKeyRead (map fst pre @ [u])) \<and> GivenKeyRead \<notin> set (snd (snd ?K))"
    if p: "prioritizeHTTP c" and sp: "?e1 = pre @ (u, s) # post"
      and pre: "\<forall>(v, p)\<in>set pre. missing_reply (hKeyRead H p ctx keyID)"
      and j: "hKeyRead H s ctx keyID = Inr j" for pre u s post j
  proof -
    have "\<not> missing_reply (hKeyRead H s ctx keyID)" using j by (simp add: not_missing_Inr)
    from KeyRead_remote_settles [where wait = wait and S = S and ?ord2.0 = ord2, OF _ sp pre this] p j
    have "?K = (Inr j, c, map HTTPKeyRead (map fst pre @ [u]))" by (simp add: settled_Inr)
    then show ?thesis by auto
  qed
  have c: "(\<exists>(u, s)\<in>set (httpURLs c).
               \<not> isl (hKeyRead H s ctx keyID) \<and> fst ?K = hKeyRead H s ctx keyID) \<and>
            GivenKeyRead \<notin> set (snd (snd ?K))"
    if p: "prioritizeHTTP c"
      and ex: "\<exists>(u, s)\<in>set (httpURLs c). \<not> isl (hKeyRead H s ctx keyID)"
      and ok: "\<forall>(u, s)\<in>set (httpURLs c).
             isl (hKeyRead H s ctx keyID) \<longrightarrow> missing_reply (hKeyRead H s ctx keyID)"
  proof -
    from ex obtain u0 s0 where "(u0, s0) \<in> set ?e1" and "\<not> isl (hKeyRead H s0 ctx keyID)"
      using ents by auto
    then have "(u0, s0) \<in> set ?e1 \<and> \<not> missing_reply (hKeyRead H s0 ctx keyID)"
      by (cases "hKeyRead H s0 ctx keyID") (auto simp: missing_reply_def)
    then have "\<not> (\<forall>a\<in>set ?e1. (case a of (v, p) \<Rightarrow> missing_reply (hKeyRead H p ctx keyID)))"
      by force
    then obtain pre a post where sp: "?e1 = pre @ a # post"
      and pre: "\<forall>y\<in>set pre. (case y of (v, p) \<Rightarrow> missing_reply (hKeyRead H p ctx keyID))"
      and na: "\<not> (case a of (v, p) \<Rightarrow> missing_reply (hKeyRead H p ctx keyID))"
      by (rule first_unmissing)
    obtain u s where us: "a = (u, s)" by (cases a)
    have mem: "(u, s) \<in> set (httpURLs c)" using sp us ents by auto
    have "\<not> isl (hKeyRead H s ctx keyID)" using ok mem na us by auto
    then obtain j where j: "hKeyRead H s ctx keyID = Inr j"
      by (cases "hKeyRead H s ctx keyID") auto
    from b [OF p _ pre j, of u post] sp us
    have "?K = (Inr j, c, map HTTPKeyRead (map fst pre @ [u]))"
      and "GivenKeyRead \<notin> set (snd (snd ?K))" by auto
    then show ?thesis using mem j by force
  qed
  show ?thesis using a b c by blast
qed

theorem KeyRead_priority_witness:
  "go_map (httpURLs two_holders) \<and>
   range_order (httpURLs two_holders) [''https://one.example/jwks''] \<and>
   KeyRead memoryStorage remoteMethods admitted two_holders
     [''https://one.example/jwks''] [''https://one.example/jwks''] Background ''A'' =
     (Inr keyA, two_holders, [GivenKeyRead]) \<and>
   go_map (httpURLs failing_first) \<and>
   range_order (httpURLs failing_first) [''https://two.example/jwks'', ''https://one.example/jwks''] \<and>
   KeyRead memoryStorage remoteMethods admitted failing_first
     [''https://two.example/jwks'', ''https://one.example/jwks'']
     [''https://two.example/jwks'', ''https://one.example/jwks''] Background ''A'' =
     (Inr keyA', failing_first, [HTTPKeyRead ''https://two.example/jwks''])"
proof -
  let ?one = "''https://one.example/jwks''"
  let ?two = "''https://two.example/jwks''"
  have a1: "go_map (httpURLs two_holders)" and a2: "range_order (httpURLs two_holders) [?one]"
    by (auto simp: two_holders_def store_defs)
  have a3: "\<not> prioritizeHTTP two_holders \<and>
      sKeyRead memoryStorage (given two_holders) Background ''A'' = Inr keyA"
    by (simp add: two_holders_def store_defs key_defs)
  have b1: "go_map (httpURLs failing_first)"
    and b2: "range_order (httpURLs failing_first) [?two, ?one]"
    by (auto simp: failing_first_def store_defs)
  have b3: "prioritizeHTTP failing_first"
    by (simp add: failing_first_def store_defs)
  have b4: "go_range (httpURLs failing_first) [?two, ?one] =
        [] @ (?two, remoteStore None [keyA'] None (Inr [])) #
        [(?one, remoteStore None [] (Some (Other ''connection reset'')) (Inr []))]"
    by (simp add: failing_first_def store_defs)
  have b5: "\<forall>(v, p)\<in>set []. missing_reply (hKeyRead remoteMethods p Background ''A'')"
    by simp
  have b6: "hKeyRead remoteMethods (remoteStore None [keyA'] None (Inr [])) Background ''A'' =
      Inr keyA'"
    by (simp add: store_defs key_defs)
  from KeyRead_priority [OF a1 a2, of memoryStorage Background "''A''" remoteMethods admitted "[?one]"] a3
  have A: "KeyRead memoryStorage remoteMethods admitted two_holders [?one] [?one] Background ''A'' =
      (Inr keyA, two_holders, [GivenKeyRead])"
    by blast
  note B = KeyRead_priority [OF b1 b2, of memoryStorage Background "''A''" remoteMethods admitted
      "[?two, ?one]", THEN conjunct2, THEN conjunct1, rule_format, OF conjI [OF b3 conjI [OF b4 conjI [OF b5 b6]]]]
  then have "KeyRead memoryStorage remoteMethods admitted failing_first [?two, ?one] [?two, ?one]
      Background ''A'' = (Inr keyA', failing_first, map HTTPKeyRead (map fst [] @ [?two]))"
    by simp
  then show ?thesis using a1 a2 b1 b2 A by simp
qed

text \<open>
  The claim C2 as written, for every client, is false: with the flag enabled and the key
  in the local store and in a remote store, \<^verbatim>\<open>KeyRead\<close> returns an error when a remote
  store visited before the holder fails with an error other than not found.
\<close>

theorem KeyRead_priority_counterexample:
  "prioritizeHTTP failing_first \<and>
   go_map (httpURLs failing_first) \<and>
   range_order (httpURLs failing_first) [''https://one.example/jwks'', ''https://two.example/jwks''] \<and>
   sKeyRead memoryStorage (given failing_first) Background ''A'' = Inr keyA \<and>
   map_of (httpURLs failing_first) ''https://two.example/jwks'' =
     Some (remoteStore None [keyA'] None (Inr [])) \<and>
   hKeyRead remoteMethods (remoteStore None [keyA'] None (Inr [])) Background ''A'' = Inr keyA' \<and>
   fst (KeyRead memoryStorage remoteMethods admitted failing_first
          [''https://one.example/jwks'', ''https://two.example/jwks'']
          [''https://one.example/jwks'', ''https://two.example/jwks''] Background ''A'') =
     Inl (http_read_failed ''A'' (Other ''connection reset''))"
  by (simp add: failing_first_def store_defs key_defs read_defs)

section \<open>KeyRead: not found and other failures\<close>

text \<open>
  Claim C3. A store that reports not found is passed over and the next is asked; the first
  store that answers otherwise ends the lookup at once, with its key or with its error
  wrapped with the key ID, the rest not being asked; so it is for the reads before the
  refresh and for the read of a refreshed store. When every store reports not found,
  also after the refresh where there is one, \<^verbatim>\<open>KeyRead\<close> returns the not-found failure
  that carries the key ID; that failure is \<^verbatim>\<open>ErrKeyNotFound\<close> for \<^verbatim>\<open>errors.Is\<close>, and no
  other error \<^verbatim>\<open>KeyRead\<close> returns is.
\<close>

theorem KeyRead_not_found_tolerant:
  assumes "go_map (httpURLs c)" and "range_order (httpURLs c) ord1"
    and "range_order (httpURLs c) ord2"
  shows "(\<not> prioritizeHTTP c \<and> \<not> missing_reply (sKeyRead S (given c) ctx keyID) \<longrightarrow>
            KeyRead S H wait c ord1 ord2 ctx keyID =
              (settled (given_read_failed keyID) (sKeyRead S (given c) ctx keyID), c,
               [GivenKeyRead])) \<and>
         (\<forall>pre u s post.
            (prioritizeHTTP c \<or> missing_reply (sKeyRead S (given c) ctx keyID)) \<and>
            go_range (httpURLs c) ord1 = pre @ (u, s) # post \<and>
            (\<forall>(v, p)\<in>set pre. missing_reply (hKeyRead H p ctx keyID)) \<and>
            \<not> missing_reply (hKeyRead H s ctx keyID) \<longrightarrow>
            KeyRead S H wait c ord1 ord2 ctx keyID =
              (settled (http_read_failed keyID) (hKeyRead H s ctx keyID), c,
               (if \<not> prioritizeHTTP c then [GivenKeyRead] else []) @
               map HTTPKeyRead (map fst pre @ [u]))) \<and>
         (prioritizeHTTP c \<and>
          (\<forall>(v, p)\<in>set (httpURLs c). missing_reply (hKeyRead H p ctx keyID)) \<and>
          \<not> missing_reply (sKeyRead S (given c) ctx keyID) \<longrightarrow>
            KeyRead S H wait c ord1 ord2 ctx keyID =
              (settled (given_read_failed keyID) (sKeyRead S (given c) ctx keyID), c,
               map HTTPKeyRead ord1 @ [GivenKeyRead])) \<and>
         (missing_reply (sKeyRead S (given c) ctx keyID) \<and>
          (\<forall>(v, p)\<in>set (httpURLs c). missing_reply (hKeyRead H p ctx keyID)) \<and>
          (refreshUnknownKID c = None \<or>
           (\<exists>l. refreshUnknownKID c = Some l \<and> wait l (wait_context c ctx) = None \<and>
                (\<forall>(v, p)\<in>set (httpURLs c). passes H (wait_context c ctx) keyID p))) \<longrightarrow>
            fst (KeyRead S H wait c ord1 ord2 ctx keyID) = Inl (not_found keyID) \<and>
            (\<exists>t. snd (snd (KeyRead S H wait c ord1 ord2 ctx keyID)) = early_calls c ord1 @ t)) \<and>
         (\<forall>l pre u s post.
            missing_reply (sKeyRead S (given c) ctx keyID) \<and>
            (\<forall>(v, p)\<in>set (httpURLs c). missing_reply (hKeyRead H p ctx keyID)) \<and>
            refreshUnknownKID c = Some l \<and> wait l (wait_context c ctx) = None \<and>
            go_range (httpURLs c) ord2 = pre @ (u, s) # post \<and>
            (\<forall>(v, p)\<in>set pre. passes H (wait_context c ctx) keyID p) \<and>
            \<not> passes H (wait_context c ctx) keyID s \<longrightarrow>
            fst (KeyRead S H wait c ord1 ord2 ctx keyID) =
              settled (http_read_failed keyID)
                (hKeyRead H (snd (hrefresh H s (wait_context c ctx))) (wait_context c ctx) keyID) \<and>
            (\<exists>t. snd (snd (KeyRead S H wait c ord1 ord2 ctx keyID)) =
                   t @ [HTTPRefresh u (wait_context c ctx), HTTPKeyRead u])) \<and>
         errors_Is (not_found keyID) ErrKeyNotFound \<and> carries (not_found keyID) keyID \<and>
         (\<forall>e. fst (KeyRead S H wait c ord1 ord2 ctx keyID) = Inl e \<longrightarrow>
            (errors_Is e ErrKeyNotFound \<longleftrightarrow> e = not_found keyID) \<and>
            (e = not_found keyID \<or> (\<exists>w. e = wait_failed (wait_err w)) \<or>
             (\<exists>x. \<not> errors_Is x ErrKeyNotFound \<and> carries e keyID \<and>
                  (e = given_read_failed keyID x \<or> e = http_read_failed keyID x))))"
proof -
  let ?K = "KeyRead S H wait c ord1 ord2 ctx keyID"
  let ?G = "sKeyRead S (given c) ctx keyID"
  let ?e1 = "go_range (httpURLs c) ord1"
  let ?e2 = "go_range (httpURLs c) ord2"
  let ?x = "wait_context c ctx"
  have s1: "set ?e1 = set (httpURLs c)" using assms(1,2) by (rule go_range_set)
  have s2: "set ?e2 = set (httpURLs c)" using assms(1,3) by (rule go_range_set)
  have k1: "map fst ?e1 = ord1" using assms(2) by (rule go_range_keys)
  have a: "?K = (settled (given_read_failed keyID) ?G, c, [GivenKeyRead])"
    if "\<not> prioritizeHTTP c \<and> \<not> missing_reply ?G"
    using that KeyRead_given_first by blast
  have b: "?K = (settled (http_read_failed keyID) (hKeyRead H s ctx keyID), c,
               (if \<not> prioritizeHTTP c then [GivenKeyRead] else []) @
               map HTTPKeyRead (map fst pre @ [u]))"
    if "prioritizeHTTP c \<or> missing_reply ?G" and "?e1 = pre @ (u, s) # post"
      and "\<forall>(v, p)\<in>set pre. missing_reply (hKeyRead H p ctx keyID)"
      and "\<not> missing_reply (hKeyRead H s ctx keyID)" for pre u s post
    using that by (rule KeyRead_remote_settles)
  have c: "?K = (settled (given_read_failed keyID) ?G, c, map HTTPKeyRead ord1 @ [GivenKeyRead])"
    if p: "prioritizeHTTP c"
      and m: "\<forall>(v, p)\<in>set (httpURLs c). missing_reply (hKeyRead H p ctx keyID)"
      and g: "\<not> missing_reply ?G"
  proof -
    have "\<forall>(v, p)\<in>set ?e1. missing_reply (hKeyRead H p ctx keyID)" using m s1 by simp
    from KeyRead_given_last [OF p this g] show ?thesis using k1 by simp
  qed
  have d: "fst ?K = Inl (not_found keyID) \<and> (\<exists>t. snd (snd ?K) = early_calls c ord1 @ t)"
    if g: "missing_reply ?G"
      and m: "\<forall>(v, p)\<in>set (httpURLs c). missing_reply (hKeyRead H p ctx keyID)"
      and r: "refreshUnknownKID c = None \<or>
           (\<exists>l. refreshUnknownKID c = Some l \<and> wait l ?x = None \<and>
                (\<forall>(v, p)\<in>set (httpURLs c). passes H ?x keyID p))"
  proof -
    have "\<forall>(v, p)\<in>set ?e1. missing_reply (hKeyRead H p ctx keyID)" using m s1 by simp
    note K = KeyRead_all_missing [OF g this, of wait ord2, unfolded k1]
    from r show ?thesis
    proof
      assume "refreshUnknownKID c = None"
      then show ?thesis using K by (simp add: KeyRead_refresh_disabled)
    next
      assume "\<exists>l. refreshUnknownKID c = Some l \<and> wait l ?x = None \<and>
                (\<forall>(v, p)\<in>set (httpURLs c). passes H ?x keyID p)"
      then obtain l where l: "refreshUnknownKID c = Some l" and w: "wait l ?x = None"
        and ps: "\<forall>(v, p)\<in>set (httpURLs c). passes H ?x keyID p" by blast
      have ps': "\<forall>(v, p)\<in>set ?e2. passes H ?x keyID p" using ps s2 by simp
      have "fst ` set ?e2 \<subseteq> fst ` set (httpURLs c)" using s2 by simp
      from KeyRead_refresh_all_pass [where wait = wait, OF l w ps' this]
      show ?thesis using K by auto
    qed
  qed
  have f: "fst ?K = settled (http_read_failed keyID) (hKeyRead H (snd (hrefresh H s ?x)) ?x keyID) \<and>
            (\<exists>t. snd (snd ?K) = t @ [HTTPRefresh u ?x, HTTPKeyRead u])"
    if g: "missing_reply ?G"
      and m: "\<forall>(v, p)\<in>set (httpURLs c). missing_reply (hKeyRead H p ctx keyID)"
      and l: "refreshUnknownKID c = Some l" and w: "wait l ?x = None"
      and sp: "?e2 = pre @ (u, s) # post"
      and pre: "\<forall>(v, p)\<in>set pre. passes H ?x keyID p"
      and np: "\<not> passes H ?x keyID s" for l pre u s post
  proof -
    have "\<forall>(v, p)\<in>set ?e1. missing_reply (hKeyRead H p ctx keyID)" using m s1 by simp
    note K = KeyRead_all_missing [OF g this, of wait ord2, unfolded k1]
    have "fst ` set ?e2 \<subseteq> fst ` set (httpURLs c)" using s2 by simp
    from KeyRead_refresh_settles [where wait = wait, OF l w sp pre np this]
    obtain m' where "KeyRead_refresh H wait c ord2 ctx keyID =
           (settled (http_read_failed keyID) (hKeyRead H (snd (hrefresh H s ?x)) ?x keyID),
            c\<lparr>httpURLs := m'\<rparr>,
            LimiterWait ?x # concat (map (visit H ?x) pre) @ [HTTPRefresh u ?x, HTTPKeyRead u])"
      by blast
    then have "?K = (settled (http_read_failed keyID) (hKeyRead H (snd (hrefresh H s ?x)) ?x keyID),
            c\<lparr>httpURLs := m'\<rparr>,
            (early_calls c ord1 @ LimiterWait ?x # concat (map (visit H ?x) pre)) @
              [HTTPRefresh u ?x, HTTPKeyRead u])"
      using K by simp
    then show ?thesis by (metis fst_conv snd_conv)
  qed
  have e: "(errors_Is e ErrKeyNotFound \<longleftrightarrow> e = not_found keyID) \<and>
            (e = not_found keyID \<or> (\<exists>w. e = wait_failed (wait_err w)) \<or>
             (\<exists>x. \<not> errors_Is x ErrKeyNotFound \<and> carries e keyID \<and>
                  (e = given_read_failed keyID x \<or> e = http_read_failed keyID x)))"
    if err: "fst ?K = Inl e" for e
  proof -
    have wrapped: ?thesis
      if "\<not> missing_reply r" and "settled wrap r = Inl e"
        and "wrap = given_read_failed keyID \<or> wrap = http_read_failed keyID" for r wrap
    proof -
      from settled_error [OF that(1,2)] obtain x where x: "e = wrap x"
        and nx: "\<not> errors_Is x ErrKeyNotFound" by blast
      have "\<not> errors_Is e ErrKeyNotFound" using x nx that(3) by (auto simp: read_failed_is)
      moreover then have "e \<noteq> not_found keyID" using not_found_is(1) by metis
      moreover have "carries e keyID" using x that(3) by (auto simp: read_failed_is)
      ultimately show ?thesis using x nx that(3) by blast
    qed
    have nf: ?thesis if "e = not_found keyID"
      using that by (simp add: not_found_is)
    have wf: ?thesis if "e = wait_failed (wait_err w)" for w
    proof -
      have "\<not> errors_Is e ErrKeyNotFound" using that by (simp add: wait_failed_is)
      moreover then have "e \<noteq> not_found keyID" using not_found_is(1) by metis
      ultimately show ?thesis using that by blast
    qed
    from assms show ?thesis
    proof (cases rule: KeyRead_outcomes
        [where S = S and ctx = ctx and keyID = keyID and H = H and wait = wait])
      case given_first
      then show ?thesis using err wrapped by simp
    next
      case (remote pre u s post)
      then show ?thesis using err wrapped by simp
    next
      case given_last
      then show ?thesis using err wrapped by simp
    next
      case disabled
      then have "e = not_found keyID" using err by simp
      then show ?thesis by (rule nf)
    next
      case (wait_fails w)
      then have "e = wait_failed (wait_err w)" using err by simp
      then show ?thesis by (rule wf)
    next
      case (all_pass m')
      then have "e = not_found keyID" using err by simp
      then show ?thesis by (rule nf)
    next
      case (refreshed pre u s post m')
      then show ?thesis using err wrapped by simp
    qed
  qed
  show ?thesis using a b c d f e not_found_is by blast
qed

theorem KeyRead_not_found_tolerant_witness:
  "go_map (httpURLs failing_first) \<and>
   range_order (httpURLs failing_first) [''https://one.example/jwks'', ''https://two.example/jwks''] \<and>
   KeyRead memoryStorage remoteMethods admitted failing_first
     [''https://one.example/jwks'', ''https://two.example/jwks'']
     [''https://one.example/jwks'', ''https://two.example/jwks''] Background ''A'' =
     (Inl (http_read_failed ''A'' (Other ''connection reset'')), failing_first,
      [HTTPKeyRead ''https://one.example/jwks'']) \<and>
   go_map (httpURLs three_sources) \<and>
   range_order (httpURLs three_sources) [''https://two.example/jwks'', ''https://one.example/jwks''] \<and>
   fst (KeyRead memoryStorage remoteMethods admitted three_sources
     [''https://two.example/jwks'', ''https://one.example/jwks'']
     [''https://two.example/jwks'', ''https://one.example/jwks''] Background ''Z'') =
     Inl (not_found ''Z'') \<and>
   errors_Is (not_found ''Z'') ErrKeyNotFound \<and>
   \<not> errors_Is (http_read_failed ''A'' (Other ''connection reset'')) ErrKeyNotFound"
proof -
  let ?one = "''https://one.example/jwks''"
  let ?two = "''https://two.example/jwks''"
  have a1: "go_map (httpURLs failing_first)"
    and a2: "range_order (httpURLs failing_first) [?one, ?two]"
    by (auto simp: failing_first_def store_defs)
  have a3: "prioritizeHTTP failing_first \<or>
      missing_reply (sKeyRead memoryStorage (given failing_first) Background ''A'')"
    by (simp add: failing_first_def store_defs)
  have a4: "go_range (httpURLs failing_first) [?one, ?two] =
        [] @ (?one, remoteStore None [] (Some (Other ''connection reset'')) (Inr [])) #
        [(?two, remoteStore None [keyA'] None (Inr []))]"
    by (simp add: failing_first_def store_defs)
  have a5: "\<forall>(v, p)\<in>set []. missing_reply (hKeyRead remoteMethods p Background ''A'')"
    by simp
  have a6: "\<not> missing_reply (hKeyRead remoteMethods
      (remoteStore None [] (Some (Other ''connection reset'')) (Inr [])) Background ''A'')"
    by (simp add: store_defs missing_reply_def)
  note A = KeyRead_not_found_tolerant [OF a1 a2 a2, of memoryStorage Background "''A''"
      remoteMethods admitted, THEN conjunct2, THEN conjunct1, rule_format,
      OF conjI [OF a3 conjI [OF a4 conjI [OF a5 a6]]]]
  have A': "KeyRead memoryStorage remoteMethods admitted failing_first [?one, ?two] [?one, ?two]
      Background ''A'' =
     (Inl (http_read_failed ''A'' (Other ''connection reset'')), failing_first,
      [HTTPKeyRead ?one])"
    using A by (simp add: store_defs settled_def failing_first_def)
  have b1: "go_map (httpURLs three_sources)"
    and b2: "range_order (httpURLs three_sources) [?two, ?one]"
    by (auto simp: three_sources_def store_defs)
  have b3: "missing_reply (sKeyRead memoryStorage (given three_sources) Background ''Z'') \<and>
      (\<forall>(v, p)\<in>set (httpURLs three_sources).
          missing_reply (hKeyRead remoteMethods p Background ''Z'')) \<and>
      (refreshUnknownKID three_sources = None \<or>
       (\<exists>l. refreshUnknownKID three_sources = Some l \<and>
            admitted l (wait_context three_sources Background) = None \<and>
            (\<forall>(v, p)\<in>set (httpURLs three_sources).
                passes remoteMethods (wait_context three_sources Background) ''Z'' p)))"
    by (simp add: three_sources_def store_defs key_defs missing_reply_def)
  note B = KeyRead_not_found_tolerant [OF b1 b2 b2, of memoryStorage Background "''Z''"
      remoteMethods admitted]
  from B b3 have B': "fst (KeyRead memoryStorage remoteMethods admitted three_sources
      [?two, ?one] [?two, ?one] Background ''Z'') = Inl (not_found ''Z'')"
    by blast
  from B have B'': "errors_Is (not_found ''Z'') ErrKeyNotFound" by blast
  show ?thesis using a1 a2 b1 b2 A' B' B''
    by (simp add: http_read_failed_def)
qed

section \<open>KeyRead: refresh on an unknown key ID\<close>



section \<open>KeyRead: the order of the stores\<close>

lemma KeyRead_sole_answer:
  assumes gm: "go_map (httpURLs c)"
    and uniq: "\<forall>(u, s)\<in>set (httpURLs c). \<forall>(v, p)\<in>set (httpURLs c).
       \<not> missing_reply (hKeyRead H s ctx keyID) \<and> \<not> missing_reply (hKeyRead H p ctx keyID) \<longrightarrow>
       u = v"
    and early: "\<not> missing_reply (sKeyRead S (given c) ctx keyID) \<or>
       (\<exists>(u, s)\<in>set (httpURLs c). \<not> missing_reply (hKeyRead H s ctx keyID)) \<or>
       refreshUnknownKID c = None"
  shows "\<exists>r. \<forall>w a1 a2. range_order (httpURLs c) a1 \<longrightarrow>
           fst (KeyRead S H w c a1 a2 ctx keyID) = r \<and>
           fst (snd (KeyRead S H w c a1 a2 ctx keyID)) = c"
proof -
  let ?m = "httpURLs c"
  let ?G = "sKeyRead S (given c) ctx keyID"
  show ?thesis
  proof (cases "\<not> prioritizeHTTP c \<and> \<not> missing_reply ?G")
    case True
    then show ?thesis using KeyRead_given_first [of c S ctx keyID H] by (intro exI) auto
  next
    case False
    then have pm: "prioritizeHTTP c \<or> missing_reply ?G" by blast
    show ?thesis
    proof (cases "\<exists>(u, s)\<in>set ?m. \<not> missing_reply (hKeyRead H s ctx keyID)")
      case True
      then obtain u s where us: "(u, s) \<in> set ?m"
        and ns: "\<not> missing_reply (hKeyRead H s ctx keyID)" by blast
      have "fst (KeyRead S H w c a1 a2 ctx keyID) =
              settled (http_read_failed keyID) (hKeyRead H s ctx keyID) \<and>
            fst (snd (KeyRead S H w c a1 a2 ctx keyID)) = c"
        if o: "range_order ?m a1" for w a1 a2
      proof -
        let ?ents = "go_range ?m a1"
        have ents: "set ?ents = set ?m" using gm o by (rule go_range_set)
        have "\<not> (\<forall>a\<in>set ?ents. (case a of (v, p) \<Rightarrow> missing_reply (hKeyRead H p ctx keyID)))"
          using us ns ents by force
        then obtain pre a post where sp: "?ents = pre @ a # post"
          and pre: "\<forall>y\<in>set pre. (case y of (v, p) \<Rightarrow> missing_reply (hKeyRead H p ctx keyID))"
          and na: "\<not> (case a of (v, p) \<Rightarrow> missing_reply (hKeyRead H p ctx keyID))"
          by (rule first_unmissing)
        obtain u' s' where a: "a = (u', s')" by (cases a)
        have mem: "(u', s') \<in> set ?m" using sp a ents by auto
        have ns': "\<not> missing_reply (hKeyRead H s' ctx keyID)" using na a by simp
        have "u' = u" using uniq mem us ns ns' by blast
        then have "s' = s" using mem us gm by (metis go_map_def map_of_is_SomeI option.inject)
        have sp': "?ents = pre @ (u', s') # post" using sp a by simp
        from KeyRead_remote_settles [where wait = w and S = S and ?ord2.0 = a2, OF pm sp' pre ns']
        show ?thesis using \<open>s' = s\<close> by simp
      qed
      then show ?thesis by blast
    next
      case none: False
      then have allm: "\<forall>(v, p)\<in>set ?m. missing_reply (hKeyRead H p ctx keyID)" by blast
      show ?thesis
      proof (cases "missing_reply ?G")
        case False
        then have p: "prioritizeHTTP c" using pm by blast
        have "fst (KeyRead S H w c a1 a2 ctx keyID) = settled (given_read_failed keyID) ?G \<and>
            fst (snd (KeyRead S H w c a1 a2 ctx keyID)) = c"
          if o: "range_order ?m a1" for w a1 a2
        proof -
          have "set (go_range ?m a1) = set ?m" using gm o by (rule go_range_set)
          then have "\<forall>(v, p)\<in>set (go_range ?m a1). missing_reply (hKeyRead H p ctx keyID)"
            using allm by simp
          from KeyRead_given_last [where wait = w and ?ord2.0 = a2, OF p this False]
          show ?thesis by simp
        qed
        then show ?thesis by blast
      next
        case True
        then have off: "refreshUnknownKID c = None" using early none by blast
        have "fst (KeyRead S H w c a1 a2 ctx keyID) = Inl (not_found keyID) \<and>
            fst (snd (KeyRead S H w c a1 a2 ctx keyID)) = c"
          if o: "range_order ?m a1" for w a1 a2
        proof -
          have "set (go_range ?m a1) = set ?m" using gm o by (rule go_range_set)
          then have "\<forall>(v, p)\<in>set (go_range ?m a1). missing_reply (hKeyRead H p ctx keyID)"
            using allm by simp
          from KeyRead_all_missing [OF True this, of w a2]
          show ?thesis using off by (simp add: KeyRead_refresh_disabled)
        qed
        then show ?thesis by blast
      qed
    qed
  qed
qed

text \<open>
  Claim C5, as the code has it. Within a call the local store is read first when the flag
  is disabled and after all the remote stores when it is enabled; the remote stores are
  read in the order of the first visit of the map, up to and including the first that
  answers otherwise than not found and all of them when none does; the wait comes after
  all these reads and the refreshes follow the order of the second visit. The order of a
  visit is the Go runtime's and may differ from call to call. When one remote store at most
  answers otherwise than not found, and the call is settled without the refresh (a store
  answers, or there is no rate limiter), the call leaves the client as it was and a second
  call on that state returns the same result, whatever the orders of its visits and
  whatever its wait would return.
\<close>

theorem KeyRead_order:
  assumes "go_map (httpURLs c)" and "range_order (httpURLs c) ord1"
    and "range_order (httpURLs c) ord2"
  shows "(\<exists>k t. snd (snd (KeyRead S H wait c ord1 ord2 ctx keyID)) =
              (if \<not> prioritizeHTTP c then [GivenKeyRead] else []) @
              map HTTPKeyRead (take k ord1) @ t \<and>
            (t = [] \<or>
             k = length ord1 \<and>
             (\<exists>t'. t = (if prioritizeHTTP c then [GivenKeyRead] else []) @ t' \<and>
               (t' = [] \<or>
                (\<exists>t'' j. t' = LimiterWait (wait_context c ctx) # t'' \<and>
                   refreshes t'' = take j ord2))))) \<and>
         (\<not> prioritizeHTTP c \<and> \<not> missing_reply (sKeyRead S (given c) ctx keyID) \<longrightarrow>
            KeyRead S H wait c ord1 ord2 ctx keyID =
              (settled (given_read_failed keyID) (sKeyRead S (given c) ctx keyID), c,
               [GivenKeyRead])) \<and>
         (\<forall>pre u s post.
            (prioritizeHTTP c \<or> missing_reply (sKeyRead S (given c) ctx keyID)) \<and>
            go_range (httpURLs c) ord1 = pre @ (u, s) # post \<and>
            (\<forall>(v, p)\<in>set pre. missing_reply (hKeyRead H p ctx keyID)) \<and>
            \<not> missing_reply (hKeyRead H s ctx keyID) \<longrightarrow>
            KeyRead S H wait c ord1 ord2 ctx keyID =
              (settled (http_read_failed keyID) (hKeyRead H s ctx keyID), c,
               (if \<not> prioritizeHTTP c then [GivenKeyRead] else []) @
               map HTTPKeyRead (take (Suc (length pre)) ord1))) \<and>
         ((prioritizeHTTP c \<or> missing_reply (sKeyRead S (given c) ctx keyID)) \<and>
          (\<forall>(v, p)\<in>set (httpURLs c). missing_reply (hKeyRead H p ctx keyID)) \<longrightarrow>
            (\<exists>t. snd (snd (KeyRead S H wait c ord1 ord2 ctx keyID)) =
               (if \<not> prioritizeHTTP c then [GivenKeyRead] else []) @ map HTTPKeyRead ord1 @
               (if prioritizeHTTP c then [GivenKeyRead] else []) @ t)) \<and>
         (\<forall>o1 o2 w.
            range_order (httpURLs c) o1 \<and>
            (\<forall>(u, s)\<in>set (httpURLs c). \<forall>(v, p)\<in>set (httpURLs c).
               \<not> missing_reply (hKeyRead H s ctx keyID) \<and>
               \<not> missing_reply (hKeyRead H p ctx keyID) \<longrightarrow> u = v) \<and>
            (\<not> missing_reply (sKeyRead S (given c) ctx keyID) \<or>
             (\<exists>(u, s)\<in>set (httpURLs c). \<not> missing_reply (hKeyRead H s ctx keyID)) \<or>
             refreshUnknownKID c = None) \<longrightarrow>
            fst (snd (KeyRead S H wait c ord1 ord2 ctx keyID)) = c \<and>
            fst (KeyRead S H w (fst (snd (KeyRead S H wait c ord1 ord2 ctx keyID))) o1 o2 ctx keyID) =
              fst (KeyRead S H wait c ord1 ord2 ctx keyID))"
proof -
  let ?K = "KeyRead S H wait c ord1 ord2 ctx keyID"
  let ?G = "sKeyRead S (given c) ctx keyID"
  let ?A = "if \<not> prioritizeHTTP c then [GivenKeyRead] else []"
  let ?B = "if prioritizeHTTP c then [GivenKeyRead] else []"
  let ?x = "wait_context c ctx"
  let ?e1 = "go_range (httpURLs c) ord1"
  let ?e2 = "go_range (httpURLs c) ord2"
  have s1: "set ?e1 = set (httpURLs c)" using assms(1,2) by (rule go_range_set)
  have k1: "map fst ?e1 = ord1" using assms(2) by (rule go_range_keys)
  have k2: "map fst ?e2 = ord2" using assms(3) by (rule go_range_keys)
  have after: "\<exists>k t. snd (snd ?K) = ?A @ map HTTPKeyRead (take k ord1) @ t \<and>
            (t = [] \<or> k = length ord1 \<and>
             (\<exists>t'. t = ?B @ t' \<and>
               (t' = [] \<or>
                (\<exists>t'' j. t' = LimiterWait ?x # t'' \<and> refreshes t'' = take j ord2))))"
    if "snd (snd ?K) = early_calls c ord1 @ t'"
      and "t' = [] \<or> (\<exists>t'' j. t' = LimiterWait ?x # t'' \<and> refreshes t'' = take j ord2)" for t'
    using that
    by (intro exI [of _ "length ord1"] exI [of _ "?B @ t'"]) (auto simp: early_calls_def)
  have waited: "\<exists>k t. snd (snd ?K) = ?A @ map HTTPKeyRead (take k ord1) @ t \<and>
            (t = [] \<or> k = length ord1 \<and>
             (\<exists>t'. t = ?B @ t' \<and>
               (t' = [] \<or>
                (\<exists>t'' j. t' = LimiterWait ?x # t'' \<and> refreshes t'' = take j ord2))))"
    if K: "snd (snd ?K) = early_calls c ord1 @ LimiterWait ?x # t''"
      and r: "refreshes t'' = take j ord2" for t'' j
  proof -
    have "\<exists>s i. LimiterWait ?x # t'' = LimiterWait ?x # s \<and> refreshes s = take i ord2"
      using r by blast
    then show ?thesis using after [OF K] by blast
  qed
  from assms have shape: "\<exists>k t. snd (snd ?K) = ?A @ map HTTPKeyRead (take k ord1) @ t \<and>
            (t = [] \<or> k = length ord1 \<and>
             (\<exists>t'. t = ?B @ t' \<and>
               (t' = [] \<or>
                (\<exists>t'' j. t' = LimiterWait ?x # t'' \<and> refreshes t'' = take j ord2))))"
  proof (cases rule: KeyRead_outcomes
        [where S = S and ctx = ctx and keyID = keyID and H = H and wait = wait])
    case given_first
    then show ?thesis by (intro exI [of _ 0] exI [of _ "[]"]) simp
  next
    case (remote pre u s post)
    have "ord1 = map fst pre @ u # map fst post" using k1 remote(1) by auto
    then have "take (Suc (length pre)) ord1 = map fst pre @ [u]" by simp
    then show ?thesis using remote(3)
      by (intro exI [of _ "Suc (length pre)"] exI [of _ "[]"]) simp
  next
    case given_last
    then show ?thesis
      by (intro exI [of _ "length ord1"] exI [of _ "[GivenKeyRead]"]) simp
  next
    case disabled
    then show ?thesis using after [of "[]"] by simp
  next
    case (wait_fails w)
    have "refreshes [] = take 0 ord2" by simp
    moreover have "snd (snd ?K) = early_calls c ord1 @ LimiterWait ?x # []"
      using wait_fails by simp
    ultimately show ?thesis using waited by blast
  next
    case (all_pass m')
    have "refreshes (concat (map (visit H ?x) ?e2)) = take (length ord2) ord2"
      using visit_refreshes [of H ?x ?e2 "[]"] k2 by simp
    moreover have "snd (snd ?K) =
        early_calls c ord1 @ LimiterWait ?x # concat (map (visit H ?x) ?e2)"
      using all_pass by simp
    ultimately show ?thesis using waited by blast
  next
    case (refreshed pre u s post m')
    have "ord2 = map fst pre @ u # map fst post" using k2 refreshed(1) by auto
    then have "take (Suc (length pre)) ord2 = map fst pre @ [u]" by simp
    then have "refreshes (concat (map (visit H ?x) pre) @ [HTTPRefresh u ?x, HTTPKeyRead u]) =
        take (Suc (length pre)) ord2"
      using visit_refreshes [of H ?x pre "[HTTPRefresh u ?x, HTTPKeyRead u]"] by simp
    moreover have "snd (snd ?K) = early_calls c ord1 @ LimiterWait ?x #
        (concat (map (visit H ?x) pre) @ [HTTPRefresh u ?x, HTTPKeyRead u])"
      using refreshed(3) by simp
    ultimately show ?thesis using waited by blast
  qed
  have a: "?K = (settled (given_read_failed keyID) ?G, c, [GivenKeyRead])"
    if "\<not> prioritizeHTTP c \<and> \<not> missing_reply ?G"
    using that KeyRead_given_first by blast
  have b: "?K = (settled (http_read_failed keyID) (hKeyRead H s ctx keyID), c,
               ?A @ map HTTPKeyRead (take (Suc (length pre)) ord1))"
    if pm: "prioritizeHTTP c \<or> missing_reply ?G" and sp: "?e1 = pre @ (u, s) # post"
      and pre: "\<forall>(v, p)\<in>set pre. missing_reply (hKeyRead H p ctx keyID)"
      and ns: "\<not> missing_reply (hKeyRead H s ctx keyID)" for pre u s post
  proof -
    have "ord1 = map fst pre @ u # map fst post" using k1 sp by auto
    then have "take (Suc (length pre)) ord1 = map fst pre @ [u]" by simp
    then show ?thesis
      using KeyRead_remote_settles [where wait = wait and S = S and ?ord2.0 = ord2, OF pm sp pre ns]
      by simp
  qed
  have d: "\<exists>t. snd (snd ?K) = ?A @ map HTTPKeyRead ord1 @ ?B @ t"
    if pm: "prioritizeHTTP c \<or> missing_reply ?G"
      and m: "\<forall>(v, p)\<in>set (httpURLs c). missing_reply (hKeyRead H p ctx keyID)"
  proof -
    have all1: "\<forall>(v, p)\<in>set ?e1. missing_reply (hKeyRead H p ctx keyID)" using m s1 by simp
    show ?thesis
    proof (cases "missing_reply ?G")
      case False
      then have p: "prioritizeHTTP c" using pm by blast
      from KeyRead_given_last [where wait = wait and ?ord2.0 = ord2, OF p all1 False]
      show ?thesis using p k1 by simp
    next
      case True
      from KeyRead_all_missing [OF True all1, of wait ord2, unfolded k1]
      show ?thesis by (auto simp: early_calls_def split: prod.splits)
    qed
  qed
  have e: "fst (snd ?K) = c \<and> fst (KeyRead S H w (fst (snd ?K)) o1 o2 ctx keyID) = fst ?K"
    if o: "range_order (httpURLs c) o1"
      and u: "\<forall>(u, s)\<in>set (httpURLs c). \<forall>(v, p)\<in>set (httpURLs c).
               \<not> missing_reply (hKeyRead H s ctx keyID) \<and>
               \<not> missing_reply (hKeyRead H p ctx keyID) \<longrightarrow> u = v"
      and el: "\<not> missing_reply ?G \<or>
             (\<exists>(u, s)\<in>set (httpURLs c). \<not> missing_reply (hKeyRead H s ctx keyID)) \<or>
             refreshUnknownKID c = None" for o1 o2 w
  proof -
    from KeyRead_sole_answer [OF assms(1) u el]
    obtain r where r: "\<forall>w a1 a2. range_order (httpURLs c) a1 \<longrightarrow>
           fst (KeyRead S H w c a1 a2 ctx keyID) = r \<and>
           fst (snd (KeyRead S H w c a1 a2 ctx keyID)) = c" by blast
    then have "fst ?K = r" "fst (snd ?K) = c" using assms(2) by blast+
    moreover have "fst (KeyRead S H w c o1 o2 ctx keyID) = r" using r o by blast
    ultimately show ?thesis by simp
  qed
  show ?thesis using shape a b d e by blast
qed

theorem KeyRead_order_witness:
  "go_map (httpURLs three_sources) \<and>
   range_order (httpURLs three_sources) [''https://one.example/jwks'', ''https://two.example/jwks''] \<and>
   range_order (httpURLs three_sources) [''https://two.example/jwks'', ''https://one.example/jwks''] \<and>
   KeyRead memoryStorage remoteMethods admitted three_sources
     [''https://one.example/jwks'', ''https://two.example/jwks'']
     [''https://one.example/jwks'', ''https://two.example/jwks''] Background ''B'' =
     (Inr keyB, three_sources, [GivenKeyRead, HTTPKeyRead ''https://one.example/jwks'']) \<and>
   fst (KeyRead memoryStorage remoteMethods never_admitted
     (fst (snd (KeyRead memoryStorage remoteMethods admitted three_sources
        [''https://one.example/jwks'', ''https://two.example/jwks'']
        [''https://one.example/jwks'', ''https://two.example/jwks''] Background ''B'')))
     [''https://two.example/jwks'', ''https://one.example/jwks'']
     [''https://two.example/jwks'', ''https://one.example/jwks''] Background ''B'') = Inr keyB \<and>
   snd (snd (KeyRead memoryStorage remoteMethods never_admitted three_sources
     [''https://two.example/jwks'', ''https://one.example/jwks'']
     [''https://two.example/jwks'', ''https://one.example/jwks''] Background ''B'')) =
     [GivenKeyRead, HTTPKeyRead ''https://two.example/jwks'',
      HTTPKeyRead ''https://one.example/jwks'']"
proof -
  let ?one = "''https://one.example/jwks''"
  let ?two = "''https://two.example/jwks''"
  let ?K = "KeyRead memoryStorage remoteMethods admitted three_sources [?one, ?two] [?one, ?two]
      Background ''B''"
  have h1: "go_map (httpURLs three_sources)"
    and h2: "range_order (httpURLs three_sources) [?one, ?two]"
    and h3: "range_order (httpURLs three_sources) [?two, ?one]"
    by (auto simp: three_sources_def store_defs)
  have u: "\<forall>(u, s)\<in>set (httpURLs three_sources). \<forall>(v, p)\<in>set (httpURLs three_sources).
      \<not> missing_reply (hKeyRead remoteMethods s Background ''B'') \<and>
      \<not> missing_reply (hKeyRead remoteMethods p Background ''B'') \<longrightarrow> u = v"
    by (simp add: three_sources_def store_defs key_defs missing_reply_def)
  have e: "\<not> missing_reply (sKeyRead memoryStorage (given three_sources) Background ''B'') \<or>
      (\<exists>(u, s)\<in>set (httpURLs three_sources).
          \<not> missing_reply (hKeyRead remoteMethods s Background ''B'')) \<or>
      refreshUnknownKID three_sources = None"
    by (simp add: three_sources_def store_defs key_defs missing_reply_def)
  have run: "?K = (Inr keyB, three_sources, [GivenKeyRead, HTTPKeyRead ?one])"
    by (simp add: three_sources_def store_defs key_defs read_defs)
  have tr: "snd (snd (KeyRead memoryStorage remoteMethods never_admitted three_sources
      [?two, ?one] [?two, ?one] Background ''B'')) =
      [GivenKeyRead, HTTPKeyRead ?two, HTTPKeyRead ?one]"
    by (simp add: three_sources_def store_defs key_defs read_defs)
  note T = KeyRead_order [OF h1 h2 h2, of memoryStorage remoteMethods admitted Background "''B''"]
  from T h3 u e
  have "fst (KeyRead memoryStorage remoteMethods never_admitted (fst (snd ?K))
      [?two, ?one] [?two, ?one] Background ''B'') = fst ?K"
    by blast
  then have "fst (KeyRead memoryStorage remoteMethods never_admitted (fst (snd ?K))
      [?two, ?one] [?two, ?one] Background ''B'') = Inr keyB"
    unfolding run by simp
  then show ?thesis using h1 h2 h3 run tr by simp
qed

text \<open>
  The claim C5 as written, that two calls on the same state consult the same stores in the
  same order and return equal results, is false: with two remote stores that hold the key
  ID, two orders of visit read different stores and return different keys.
\<close>

theorem KeyRead_order_counterexample:
  "go_map (httpURLs two_copies) \<and>
   range_order (httpURLs two_copies) [''https://one.example/jwks'', ''https://two.example/jwks''] \<and>
   range_order (httpURLs two_copies) [''https://two.example/jwks'', ''https://one.example/jwks''] \<and>
   KeyRead memoryStorage remoteMethods admitted two_copies
     [''https://one.example/jwks'', ''https://two.example/jwks'']
     [''https://one.example/jwks'', ''https://two.example/jwks''] Background ''A'' =
     (Inr keyA', two_copies, [HTTPKeyRead ''https://one.example/jwks'']) \<and>
   KeyRead memoryStorage remoteMethods admitted two_copies
     [''https://two.example/jwks'', ''https://one.example/jwks'']
     [''https://two.example/jwks'', ''https://one.example/jwks''] Background ''A'' =
     (Inr keyA'', two_copies, [HTTPKeyRead ''https://two.example/jwks'']) \<and>
   keyA' \<noteq> keyA''"
proof -
  have "range_order (httpURLs two_copies) [''https://two.example/jwks'', ''https://one.example/jwks'']"
    by (auto simp: two_copies_def store_defs)
  then show ?thesis
    by (simp add: two_copies_def store_defs key_defs keyA''_def read_defs)
qed

section \<open>Construction with the defaults\<close>

lemma set_update_subset: "set (AList.update k v m) \<subseteq> insert (k, v) (set m)"
  by (induction m) auto

lemma default_stores_keeps:
  "default_stores parse new ctx urls co = Inr co' \<Longrightarrow>
   Given co' = Given co \<and> PrioritizeHTTP co' = PrioritizeHTTP co \<and>
   RateLimitWaitMax co' = RateLimitWaitMax co \<and> RefreshUnknownKID co' = RefreshUnknownKID co \<and>
   storageOptions co' = storageOptions co"
proof (induction urls arbitrary: co)
  case Nil
  then show ?case by simp
next
  case (Cons u urls)
  then show ?case
    by (fastforce simp: Let_def split: sum.splits)
qed

lemma default_stores_entries:
  "default_stores parse new ctx urls co = Inr co' \<Longrightarrow> (u, st) \<in> set (HTTPURLs co') \<Longrightarrow>
   (u, st) \<in> set (HTTPURLs co) \<or>
   (\<exists>raw parsed s. raw \<in> set urls \<and> parse raw = Inr parsed \<and> u = String parsed \<and>
      st = Some s \<and>
      new (Some parsed)
        (fold (\<lambda>opt x. opt x) (storageOptions co)
           \<lparr>Ctx = Some ctx, NoErrorReturnFirstHTTPReq = True,
            RefreshErrorHandler = Some (SlogDefault u), RefreshInterval = Hour\<rparr>) = Inr s)"
proof (induction urls arbitrary: co)
  case Nil
  then show ?case by simp
next
  case (Cons raw urls)
  from Cons.prems(1) obtain parsed where p: "parse raw = Inr parsed"
    by (auto split: sum.splits)
  let ?o = "fold (\<lambda>opt x. opt x) (storageOptions co)
           \<lparr>Ctx = Some ctx, NoErrorReturnFirstHTTPReq = True,
            RefreshErrorHandler = Some (SlogDefault (String parsed)), RefreshInterval = Hour\<rparr>"
  from Cons.prems(1) p obtain s where s: "new (Some parsed) ?o = Inr s"
    by (auto simp: Let_def split: sum.splits)
  let ?co = "co\<lparr>HTTPURLs := AList.update (String parsed) (Some s) (HTTPURLs co)\<rparr>"
  have rest: "default_stores parse new ctx urls ?co = Inr co'"
    using Cons.prems(1) p s by (simp add: Let_def)
  from Cons.IH [OF rest Cons.prems(2)] show ?case
  proof
    assume "(u, st) \<in> set (HTTPURLs ?co)"
    then have "(u, st) = (String parsed, Some s) \<or> (u, st) \<in> set (HTTPURLs co)"
      using set_update_subset [of "String parsed" "Some s" "HTTPURLs co"] by auto
    then show ?thesis using p s by auto
  next
    assume "\<exists>raw parsed s. raw \<in> set urls \<and> parse raw = Inr parsed \<and> u = String parsed \<and>
      st = Some s \<and>
      new (Some parsed)
        (fold (\<lambda>opt x. opt x) (storageOptions ?co)
           \<lparr>Ctx = Some ctx, NoErrorReturnFirstHTTPReq = True,
            RefreshErrorHandler = Some (SlogDefault u), RefreshInterval = Hour\<rparr>) = Inr s"
    then show ?thesis by auto
  qed
qed

lemma go_range_subset: "set (go_range m ord) \<subseteq> set m"
  unfolding go_range_set_gen by (auto dest: map_of_SomeD)

lemma stores_mem: "(u, s) \<in> set (stores m) \<Longrightarrow> (u, Some s) \<in> set m"
  by (induction m) (auto simp: stores_def split: option.splits)

text \<open>
  Claim C1, on the code. A client that \<^verbatim>\<open>NewDefaultHTTPClientCtx\<close> builds from a list of
  URLs and no option has a rate limiter of one event every five minutes with burst one, a
  maximum wait of one minute, the empty in-memory store as its local store, and remote
  stores each created with a refresh interval of one hour and the handler that logs to
  \<^verbatim>\<open>slog.Default()\<close> with the URL of the store. Its priority flag is false: the code never
  sets \<^verbatim>\<open>PrioritizeHTTP\<close>, so the local store is read before the remote stores, where the
  claim and the documentation of the function say that the remote stores have priority.
  \<^verbatim>\<open>NewDefaultHTTPClient\<close> is the same function under the background context.
\<close>

theorem NewDefaultHTTPClientCtx_defaults:
  assumes "NewDefaultHTTPClientCtx parse new mem ord ctx urls [] = Inr c"
  shows "\<not> prioritizeHTTP c \<and>
         rateLimitWaitMax c = Minute \<and>
         refreshUnknownKID c = Some (NewLimiter (5 * Minute) 1) \<and>
         given c = mem \<and>
         (\<forall>(u, s)\<in>set (httpURLs c).
            \<exists>raw parsed. raw \<in> set urls \<and> parse raw = Inr parsed \<and> u = String parsed \<and>
              new (Some parsed)
                \<lparr>Ctx = Some ctx, NoErrorReturnFirstHTTPReq = True,
                 RefreshErrorHandler = Some (SlogDefault u), RefreshInterval = Hour\<rparr> = Inr s) \<and>
         NewDefaultHTTPClient parse new mem ord urls [] =
           NewDefaultHTTPClientCtx parse new mem ord Background urls []"
proof -
  let ?d = "defaultClientOptions :: ('a, 'b) HTTPClientOptions"
  from assms obtain co where co: "default_stores parse new ctx urls ?d = Inr co"
    and N: "NewHTTPClient parse new mem ord co = Inr c"
    by (auto simp: NewDefaultHTTPClientCtx_def split: sum.splits)
  from default_stores_keeps [OF co]
  have keep: "Given co = None" "PrioritizeHTTP co = False" "RateLimitWaitMax co = Minute"
    "RefreshUnknownKID co = Some (NewLimiter (5 * Minute) 1)" "storageOptions co = []"
    by (simp_all add: defaultClientOptions_def)
  have built: "\<exists>raw parsed s. raw \<in> set urls \<and> parse raw = Inr parsed \<and> u = String parsed \<and>
      st = Some s \<and>
      new (Some parsed)
        \<lparr>Ctx = Some ctx, NoErrorReturnFirstHTTPReq = True,
         RefreshErrorHandler = Some (SlogDefault u), RefreshInterval = Hour\<rparr> = Inr s"
    if "(u, st) \<in> set (HTTPURLs co)" for u st
    using default_stores_entries [OF co that] by (simp add: defaultClientOptions_def)
  then have all: "\<forall>(u, st)\<in>set (go_range (HTTPURLs co) ord). st \<noteq> None"
    using go_range_subset [of "HTTPURLs co" ord] by fastforce
  have c: "c = \<lparr>given = mem, httpURLs = stores (HTTPURLs co), prioritizeHTTP = False,
      rateLimitWaitMax = Minute, refreshUnknownKID = Some (NewLimiter (5 * Minute) 1)\<rparr>"
    using N keep fill_stores_all_built [OF all, of parse new "HTTPURLs co"]
    by (auto simp: NewHTTPClient_def split: if_splits)
  have "\<exists>raw parsed. raw \<in> set urls \<and> parse raw = Inr parsed \<and> u = String parsed \<and>
      new (Some parsed)
        \<lparr>Ctx = Some ctx, NoErrorReturnFirstHTTPReq = True,
         RefreshErrorHandler = Some (SlogDefault u), RefreshInterval = Hour\<rparr> = Inr s"
    if "(u, s) \<in> set (httpURLs c)" for u s
  proof -
    have "(u, Some s) \<in> set (HTTPURLs co)" using that c by (simp add: stores_mem)
    from built [OF this] show ?thesis by auto
  qed
  then show ?thesis using c by (auto simp: NewDefaultHTTPClient_def)
qed

theorem NewDefaultHTTPClientCtx_defaults_witness:
  "NewDefaultHTTPClientCtx parseHTTPS newEmptyStore (Memory [] None) [''https://one.example/jwks'']
     Background [''https://one.example/jwks''] [] =
     Inr \<lparr>given = Memory [] None,
          httpURLs =
            [(''https://one.example/jwks'',
              \<lparr>options =
                 \<lparr>Ctx = Some Background, NoErrorReturnFirstHTTPReq = True,
                  RefreshErrorHandler = Some (SlogDefault ''https://one.example/jwks''),
                  RefreshInterval = Hour\<rparr>,
               hidden = Remote [] None (Inr [])\<rparr>)],
          prioritizeHTTP = False,
          rateLimitWaitMax = Minute,
          refreshUnknownKID = Some (NewLimiter (5 * Minute) 1)\<rparr> \<and>
   \<not> prioritizeHTTP (projr (NewDefaultHTTPClientCtx parseHTTPS newEmptyStore (Memory [] None)
       [''https://one.example/jwks''] Background [''https://one.example/jwks''] []))"
proof -
  have run: "NewDefaultHTTPClientCtx parseHTTPS newEmptyStore (Memory [] None)
      [''https://one.example/jwks''] Background [''https://one.example/jwks''] [] =
     Inr \<lparr>given = Memory [] None,
          httpURLs =
            [(''https://one.example/jwks'',
              \<lparr>options =
                 \<lparr>Ctx = Some Background, NoErrorReturnFirstHTTPReq = True,
                  RefreshErrorHandler = Some (SlogDefault ''https://one.example/jwks''),
                  RefreshInterval = Hour\<rparr>,
               hidden = Remote [] None (Inr [])\<rparr>)],
          prioritizeHTTP = False,
          rateLimitWaitMax = Minute,
          refreshUnknownKID = Some (NewLimiter (5 * Minute) 1)\<rparr>"
    by (simp add: NewDefaultHTTPClientCtx_def defaultClientOptions_def run_defs Let_def)
  from NewDefaultHTTPClientCtx_defaults [OF run]
  have "\<not> prioritizeHTTP (projr (NewDefaultHTTPClientCtx parseHTTPS newEmptyStore (Memory [] None)
       [''https://one.example/jwks''] Background [''https://one.example/jwks''] []))"
    unfolding run by simp
  then show ?thesis using run by simp
qed

end
